theory Spec2Isabelle
  imports Complex_Main
begin

section \<open>Python values and exceptions\<close>

text \<open>
  The acquisition pipeline of \<^verbatim>\<open>esplog.py\<close> works on decoded JSON frames, which are
  dynamically typed. A frame is a value of \<open>pyval\<close>. Every exception the modelled
  code can raise is a value of \<open>pyexn\<close>; \<open>OSError\<close> stands for the failures of the
  external collaborators (socket, file, signal).
\<close>

datatype pyexn =
  ValueError | TypeError | KeyError | AttributeError | ZeroDivisionError | OverflowError | OSError

text \<open>
  A Python float is a finite value, an infinity or NaN (the JSON decoder accepts
  \<^verbatim>\<open>Infinity\<close>, \<^verbatim>\<open>-Infinity\<close> and \<^verbatim>\<open>NaN\<close>, and reads \<^verbatim>\<open>1e999\<close> as infinity).
  Finite values are modelled by reals: the rounding of double arithmetic is outside the model.
\<close>

datatype pyfloat = Fin real | PosInf | NegInf | NaN

datatype pyval =
    PNone
  | PBool bool
  | PInt int
  | PFloat pyfloat
  | PStr string
  | PList "pyval list"
  | PDict "(string \<times> pyval) list"

text \<open>The three classifications of a channel; the initial \<^verbatim>\<open>None\<close> is \<open>None\<close>.\<close>

datatype level = High | Low | Normal

text \<open>
  OSC addresses: \<^verbatim>\<open>/adc/ch{i}/raw\<close>, \<^verbatim>\<open>/adc/ch{i}/voltage\<close> and
  \<^verbatim>\<open>/adc/alert/ch{i}/{high,low,normal}\<close>. A message is an address with its value.
\<close>

datatype osc_address = AdcRaw nat | AdcVoltage nat | AdcAlert nat level

type_synonym osc_msg = "osc_address \<times> pyval"

text \<open>
  An OSC client is modelled by what \<^verbatim>\<open>send_message\<close> does with a message:
  \<open>None\<close> when it is sent, \<open>Some e\<close> when the call raises \<open>e\<close>.
\<close>

type_synonym osc_client = "osc_msg \<Rightarrow> pyexn option"

text \<open>One entry of the dictionary built by \<^verbatim>\<open>apply_filters\<close>.\<close>

record chan_out =
  raw :: int
  voltage :: pyfloat
  filtered_voltage :: pyfloat

type_synonym filtered = "string \<rightharpoonup> chan_out"

section \<open>The application state\<close>

text \<open>
  The fields of \<^verbatim>\<open>self\<close> the pipeline reads and writes. The four-element per-channel
  lists are functions of the channel index (only 0..3 are ever accessed). The widgets are
  represented by the values they hold. \<open>csv_writer\<close> is \<open>None\<close> or the rows written
  so far; \<open>emitted\<close> are the payloads of the \<^verbatim>\<open>new_data\<close> signal and
  \<open>osc_sent\<close> the messages the OSC client has sent.
\<close>

record app =
  logging_active :: bool
  streaming_active :: bool
  csv_writer :: "pyval list list option"
  csv_row_count :: int
  row_counter_label :: int
  csv_flushes :: nat
  sample_count :: int
  error_count :: int
  filter_buffers :: "nat \<Rightarrow> pyfloat list"
  threshold_states :: "nat \<Rightarrow> level option"
  thresh_enabled :: "nat \<Rightarrow> bool"
  thresh_high :: "nat \<Rightarrow> real"
  thresh_low :: "nat \<Rightarrow> real"
  filter_enabled :: "nat \<Rightarrow> bool"
  filter_window :: "nat \<Rightarrow> int"
  filtered_radio :: bool
  emitted :: "pyval list"
  osc_sent :: "osc_msg list"

text \<open>\<^verbatim>\<open>str(i)\<close> for a channel index (one decimal digit per step).\<close>

definition digit_char :: "nat \<Rightarrow> char" where
  "digit_char n = ''0123456789'' ! n"

fun str :: "nat \<Rightarrow> string" where
  "str n = (if n < 10 then [digit_char n] else str (n div 10) @ [digit_char (n mod 10)])"

declare str.simps [simp del]

text \<open>
  A statement that may raise returns the exception (or \<open>None\<close>) with the state reached:
  what was mutated before the raise stays mutated. \<open>for_range\<close> is a \<^verbatim>\<open>for\<close> loop
  over the given indices, left by the first exception.
\<close>

fun for_range :: "nat list \<Rightarrow> (nat \<Rightarrow> 's \<Rightarrow> pyexn option \<times> 's) \<Rightarrow> 's \<Rightarrow> pyexn option \<times> 's" where
  "for_range [] body s = (None, s)"
| "for_range (i # is) body s =
     (case body i s of
        (Some e, s') \<Rightarrow> (Some e, s')
      | (None, s') \<Rightarrow> for_range is body s')"

definition send_message :: "osc_client \<Rightarrow> osc_msg \<Rightarrow> app \<Rightarrow> pyexn option \<times> app" where
  "send_message osc m st =
     (case osc m of
        Some e \<Rightarrow> (Some e, st)
      | None \<Rightarrow> (None, st\<lparr>osc_sent := osc_sent st @ [m]\<rparr>))"

section \<open>Operations on Python values\<close>

text \<open>
  What \<^verbatim>\<open>float(s)\<close> and \<^verbatim>\<open>int(s)\<close> do with a string is Python's numeric-literal
  parser, a parameter of the model: \<open>None\<close> is \<^verbatim>\<open>ValueError\<close>.
\<close>

record strconv =
  float_of_str :: "string \<Rightarrow> pyfloat option"
  int_of_str :: "string \<Rightarrow> int option"

text \<open>
  The integers \<^verbatim>\<open>float\<close> converts: an integer of magnitude \<open>2^1024 - 2^970\<close> or more
  rounds beyond the largest double and raises \<^verbatim>\<open>OverflowError\<close>.
\<close>

definition double_limit :: int where
  "double_limit = 2 ^ 1024 - 2 ^ 970"

fun py_float :: "strconv \<Rightarrow> pyval \<Rightarrow> pyexn + pyfloat" where
  "py_float py PNone = Inl TypeError"
| "py_float py (PBool b) = Inr (Fin (if b then 1 else 0))"
| "py_float py (PInt n) =
     (if - double_limit < n \<and> n < double_limit then Inr (Fin (of_int n)) else Inl OverflowError)"
| "py_float py (PFloat x) = Inr x"
| "py_float py (PStr s) = (case float_of_str py s of None \<Rightarrow> Inl ValueError | Some x \<Rightarrow> Inr x)"
| "py_float py (PList xs) = Inl TypeError"
| "py_float py (PDict kvs) = Inl TypeError"

text \<open>
  \<^verbatim>\<open>int(x)\<close> truncates a finite float towards zero; an infinity raises
  \<^verbatim>\<open>OverflowError\<close> and NaN raises \<^verbatim>\<open>ValueError\<close>.
\<close>

fun py_int :: "strconv \<Rightarrow> pyval \<Rightarrow> pyexn + int" where
  "py_int py PNone = Inl TypeError"
| "py_int py (PBool b) = Inr (if b then 1 else 0)"
| "py_int py (PInt n) = Inr n"
| "py_int py (PFloat (Fin x)) = Inr (if 0 \<le> x then \<lfloor>x\<rfloor> else \<lceil>x\<rceil>)"
| "py_int py (PFloat PosInf) = Inl OverflowError"
| "py_int py (PFloat NegInf) = Inl OverflowError"
| "py_int py (PFloat NaN) = Inl ValueError"
| "py_int py (PStr s) = (case int_of_str py s of None \<Rightarrow> Inl ValueError | Some n \<Rightarrow> Inr n)"
| "py_int py (PList xs) = Inl TypeError"
| "py_int py (PDict kvs) = Inl TypeError"

text \<open>
  Float arithmetic as the pipeline uses it: addition (\<^verbatim>\<open>sum\<close> starts from 0 and adds from
  the left), division by a count, and the comparisons with a finite setpoint. NaN absorbs
  addition and fails every comparison; opposite infinities add to NaN.
\<close>

fun float_add :: "pyfloat \<Rightarrow> pyfloat \<Rightarrow> pyfloat" where
  "float_add (Fin a) (Fin b) = Fin (a + b)"
| "float_add NaN y = NaN"
| "float_add x NaN = NaN"
| "float_add PosInf NegInf = NaN"
| "float_add NegInf PosInf = NaN"
| "float_add PosInf y = PosInf"
| "float_add x PosInf = PosInf"
| "float_add NegInf y = NegInf"
| "float_add x NegInf = NegInf"

definition py_sum :: "pyfloat list \<Rightarrow> pyfloat" where
  "py_sum xs = foldl float_add (Fin 0) xs"

fun float_div :: "pyfloat \<Rightarrow> nat \<Rightarrow> pyexn + pyfloat" where
  "float_div x 0 = Inl ZeroDivisionError"
| "float_div (Fin a) n = Inr (Fin (a / real n))"
| "float_div x n = Inr x"

fun float_gt :: "pyfloat \<Rightarrow> real \<Rightarrow> bool" where
  "float_gt (Fin a) h = (a > h)"
| "float_gt PosInf h = True"
| "float_gt NegInf h = False"
| "float_gt NaN h = False"

fun float_lt :: "pyfloat \<Rightarrow> real \<Rightarrow> bool" where
  "float_lt (Fin a) l = (a < l)"
| "float_lt PosInf l = False"
| "float_lt NegInf l = True"
| "float_lt NaN l = False"

text \<open>
  \<^verbatim>\<open>obj[key]\<close> with a string key: a dictionary looks the key up (\<^verbatim>\<open>KeyError\<close> when
  absent); every other value raises \<^verbatim>\<open>TypeError\<close> (not subscriptable, or indices must be
  integers). A dictionary is an association list in which a key occurs once.
\<close>

fun py_getitem :: "pyval \<Rightarrow> string \<Rightarrow> pyexn + pyval" where
  "py_getitem (PDict kvs) key = (case map_of kvs key of None \<Rightarrow> Inl KeyError | Some v \<Rightarrow> Inr v)"
| "py_getitem PNone key = Inl TypeError"
| "py_getitem (PBool b) key = Inl TypeError"
| "py_getitem (PInt n) key = Inl TypeError"
| "py_getitem (PFloat x) key = Inl TypeError"
| "py_getitem (PStr s) key = Inl TypeError"
| "py_getitem (PList xs) key = Inl TypeError"

fun is_substring :: "string \<Rightarrow> string \<Rightarrow> bool" where
  "is_substring sub [] = (sub = [])"
| "is_substring sub (c # cs) = (take (length sub) (c # cs) = sub \<or> is_substring sub cs)"

text \<open>
  \<^verbatim>\<open>key in obj\<close> with a string key: key membership for a dictionary, element membership
  for a list, substring test for a string, \<^verbatim>\<open>TypeError\<close> for a value that is not iterable.
\<close>

fun py_contains :: "string \<Rightarrow> pyval \<Rightarrow> pyexn + bool" where
  "py_contains key (PDict kvs) = Inr (map_of kvs key \<noteq> None)"
| "py_contains key (PList xs) = Inr (List.member xs (PStr key))"
| "py_contains key (PStr s) = Inr (is_substring key s)"
| "py_contains key PNone = Inl TypeError"
| "py_contains key (PBool b) = Inl TypeError"
| "py_contains key (PInt n) = Inl TypeError"
| "py_contains key (PFloat x) = Inl TypeError"

text \<open>\<^verbatim>\<open>obj.get(key, default)\<close>: only a dictionary has the method.\<close>

fun py_get :: "pyval \<Rightarrow> string \<Rightarrow> pyval \<Rightarrow> pyexn + pyval" where
  "py_get (PDict kvs) key dflt = (case map_of kvs key of None \<Rightarrow> Inr dflt | Some v \<Rightarrow> Inr v)"
| "py_get PNone key dflt = Inl AttributeError"
| "py_get (PBool b) key dflt = Inl AttributeError"
| "py_get (PInt n) key dflt = Inl AttributeError"
| "py_get (PFloat x) key dflt = Inl AttributeError"
| "py_get (PStr s) key dflt = Inl AttributeError"
| "py_get (PList xs) key dflt = Inl AttributeError"

text \<open>\<^verbatim>\<open>deque(maxlen=n).append(x)\<close>: a full deque drops its oldest element.\<close>

definition deque_append :: "nat \<Rightarrow> 'a list \<Rightarrow> 'a \<Rightarrow> 'a list" where
  "deque_append maxlen buf x = (if length buf \<ge> maxlen then tl buf @ [x] else buf @ [x])"

text \<open>
  The slice \<^verbatim>\<open>xs[-w:]\<close>: the last \<open>w\<close> elements for a positive \<open>w\<close> (all of them
  when there are fewer), the whole list for \<open>w = 0\<close>, and \<^verbatim>\<open>xs[k:]\<close> for \<open>w = -k\<close>.
\<close>

definition py_last :: "int \<Rightarrow> 'a list \<Rightarrow> 'a list" where
  "py_last w xs = (if w > 0 then drop (length xs - nat w) xs else drop (nat (- w)) xs)"

section \<open>Filter engine: \<^verbatim>\<open>apply_filters\<close>\<close>

text \<open>The \<^verbatim>\<open>try\<close> block of lines 973-977: both conversions, voltage first.\<close>

definition read_channel :: "strconv \<Rightarrow> pyval \<Rightarrow> nat \<Rightarrow> pyexn + (pyfloat \<times> int)" where
  "read_channel py channels i =
     (case py_getitem channels (str i) of
        Inl e \<Rightarrow> Inl e
      | Inr entry \<Rightarrow>
          (case py_getitem entry ''voltage'' of
             Inl e \<Rightarrow> Inl e
           | Inr vv \<Rightarrow>
               (case py_float py vv of
                  Inl e \<Rightarrow> Inl e
                | Inr v \<Rightarrow>
                    (case py_getitem entry ''raw'' of
                       Inl e \<Rightarrow> Inl e
                     | Inr rv \<Rightarrow>
                         (case py_int py rv of
                            Inl e \<Rightarrow> Inl e
                          | Inr r \<Rightarrow> Inr (v, r))))))"

text \<open>
  The body of the loop for channel \<open>i\<close>; the state is \<^verbatim>\<open>self\<close> with the dictionary
  \<^verbatim>\<open>filtered_data\<close> under construction. \<^verbatim>\<open>ValueError\<close>, \<^verbatim>\<open>TypeError\<close> and
  \<^verbatim>\<open>KeyError\<close> of the conversions are caught (\<^verbatim>\<open>continue\<close>); the voltage is appended
  to the channel's deque before the filter test.
\<close>

definition apply_filters_body :: "strconv \<Rightarrow> pyval \<Rightarrow> nat \<Rightarrow> app \<times> filtered \<Rightarrow> pyexn option \<times> (app \<times> filtered)" where
  "apply_filters_body py channels i s =
     (case py_contains (str i) channels of
        Inl e \<Rightarrow> (Some e, s)
      | Inr False \<Rightarrow> (None, s)
      | Inr True \<Rightarrow>
          (case read_channel py channels i of
             Inl e \<Rightarrow>
               (if e = ValueError \<or> e = TypeError \<or> e = KeyError then (None, s) else (Some e, s))
           | Inr (v, r) \<Rightarrow>
               let st = fst s;
                   buf = deque_append 50 (filter_buffers st i) v;
                   st' = st\<lparr>filter_buffers := (filter_buffers st)(i := buf)\<rparr>
               in
                 if filter_enabled st i \<and> length buf > 0 then
                   let window = min (filter_window st i) (int (length buf));
                       recent_samples = py_last window buf
                   in
                     (case float_div (py_sum recent_samples) (length recent_samples) of
                        Inl e \<Rightarrow> (Some e, (st', snd s))
                      | Inr fv \<Rightarrow>
                          (None, (st', (snd s)(str i \<mapsto>
                             \<lparr>raw = r, voltage = v, filtered_voltage = fv\<rparr>))))
                 else
                   (None, (st', (snd s)(str i \<mapsto> \<lparr>raw = r, voltage = v, filtered_voltage = v\<rparr>)))))"

definition apply_filters :: "strconv \<Rightarrow> pyval \<Rightarrow> app \<Rightarrow> (pyexn + filtered) \<times> app" where
  "apply_filters py data st =
     (case py_getitem data ''channels'' of
        Inl e \<Rightarrow> (Inl e, st)
      | Inr channels \<Rightarrow>
          (case for_range [0, 1, 2, 3] (apply_filters_body py channels) (st, Map.empty) of
             (Some e, s) \<Rightarrow> (Inl e, fst s)
           | (None, s) \<Rightarrow> (Inr (snd s), fst s)))"

section \<open>Threshold engine: \<^verbatim>\<open>check_thresholds\<close>\<close>

text \<open>Lines 1013-1020: the \<^verbatim>\<open>if / elif / else\<close> that computes \<^verbatim>\<open>current_state\<close>.\<close>

definition classify :: "pyfloat \<Rightarrow> real \<Rightarrow> real \<Rightarrow> level" where
  "classify v high_thresh low_thresh =
     (if float_gt v high_thresh then High
      else if float_lt v low_thresh then Low
      else Normal)"

text \<open>Line 1007: the value that is classified.\<close>

definition threshold_input :: "app \<Rightarrow> nat \<Rightarrow> chan_out \<Rightarrow> pyfloat" where
  "threshold_input st i ch = (if filter_enabled st i then filtered_voltage ch else voltage ch)"

text \<open>
  The body of the loop for channel \<open>i\<close>. The dictionary passed in is the one built by
  \<^verbatim>\<open>apply_filters\<close>, whose entries have all three keys, so the \<^verbatim>\<open>try\<close> around the
  reads cannot raise. The alert is sent before the state is stored: when the send raises, the
  stored state is not updated.
\<close>

definition check_thresholds_body :: "filtered \<Rightarrow> osc_client \<Rightarrow> nat \<Rightarrow> app \<Rightarrow> pyexn option \<times> app" where
  "check_thresholds_body channels osc i st =
     (case channels (str i) of
        None \<Rightarrow> (None, st)
      | Some ch \<Rightarrow>
          if \<not> thresh_enabled st i then (None, st)
          else
            let v = threshold_input st i ch;
                high_thresh = thresh_high st i;
                low_thresh = thresh_low st i;
                current_state = classify v high_thresh low_thresh
            in
              if Some current_state \<noteq> threshold_states st i then
                (case
                   (case current_state of
                      High \<Rightarrow>
                        send_message osc (AdcAlert i High, PList [PFloat v, PFloat (Fin high_thresh)]) st
                    | Low \<Rightarrow>
                        send_message osc (AdcAlert i Low, PList [PFloat v, PFloat (Fin low_thresh)]) st
                    | Normal \<Rightarrow>
                        if threshold_states st i \<noteq> None
                        then send_message osc (AdcAlert i Normal, PFloat v) st
                        else (None, st))
                 of
                   (Some e, st') \<Rightarrow> (Some e, st')
                 | (None, st') \<Rightarrow>
                     (None, st'\<lparr>threshold_states := (threshold_states st')(i := Some current_state)\<rparr>))
              else (None, st))"

definition check_thresholds :: "filtered \<Rightarrow> osc_client \<Rightarrow> app \<Rightarrow> pyexn option \<times> app" where
  "check_thresholds data osc st = for_range [0, 1, 2, 3] (check_thresholds_body data osc) st"

section \<open>Dispatcher: \<^verbatim>\<open>process_data\<close>\<close>

text \<open>
  What the outside world does during one call: whether \<^verbatim>\<open>signals.new_data.emit\<close>,
  \<^verbatim>\<open>csv_writer.writerow\<close> and \<^verbatim>\<open>csv_handle.flush\<close> raise, and the text of
  \<^verbatim>\<open>datetime.now().isoformat()\<close>.
\<close>

record io =
  emit_raises :: "pyexn option"
  now_iso :: string
  writerow_raises :: "pyexn option"
  flush_raises :: "pyexn option"

text \<open>Line 921: \<^verbatim>\<open>filtered_data if use_filtered else data['channels']\<close>.\<close>

datatype output_data = Filtered filtered | RawChannels pyval

text \<open>Lines 930-936: the two cells of channel \<open>i\<close> in the CSV row.\<close>

definition csv_cells :: "output_data \<Rightarrow> nat \<Rightarrow> pyval list \<Rightarrow> pyexn option \<times> pyval list" where
  "csv_cells outp i row =
     (case outp of
        Filtered fd \<Rightarrow>
          (case fd (str i) of
             Some ch \<Rightarrow> (None, row @ [PInt (raw ch), PFloat (filtered_voltage ch)])
           | None \<Rightarrow> (None, row @ [PInt 0, PFloat (Fin 0)]))
      | RawChannels channels \<Rightarrow>
          (case py_contains (str i) channels of
             Inl e \<Rightarrow> (Some e, row)
           | Inr False \<Rightarrow> (None, row @ [PInt 0, PFloat (Fin 0)])
           | Inr True \<Rightarrow>
               (case py_getitem channels (str i) of
                  Inl e \<Rightarrow> (Some e, row)
                | Inr entry \<Rightarrow>
                    (case py_getitem entry ''raw'' of
                       Inl e \<Rightarrow> (Some e, row)
                     | Inr r \<Rightarrow>
                         (case py_getitem entry ''voltage'' of
                            Inl e \<Rightarrow> (Some e, row)
                          | Inr v \<Rightarrow> (None, row @ [r, v]))))))"

text \<open>
  Lines 924-946, entered when logging is active and a writer exists: the row is built, written,
  counted; the label is refreshed every 10 rows and the file flushed when
  \<^verbatim>\<open>sample_count\<close> is a multiple of 100.
\<close>

definition log_to_csv :: "io \<Rightarrow> pyval \<Rightarrow> output_data \<Rightarrow> app \<Rightarrow> pyexn option \<times> app" where
  "log_to_csv w data outp st =
     (case csv_writer st of
        None \<Rightarrow> (None, st)
      | Some rows \<Rightarrow>
          (case py_get data ''timestamp'' (PInt 0) of
             Inl e \<Rightarrow> (Some e, st)
           | Inr timestamp_esp32 \<Rightarrow>
               (case for_range [0, 1, 2, 3] (csv_cells outp) [PStr (now_iso w), timestamp_esp32] of
                  (Some e, row) \<Rightarrow> (Some e, st)
                | (None, row) \<Rightarrow>
                    (case writerow_raises w of
                       Some e \<Rightarrow> (Some e, st)
                     | None \<Rightarrow>
                         let st1 = st\<lparr>csv_writer := Some (rows @ [row]),
                                       csv_row_count := csv_row_count st + 1\<rparr>;
                             st2 = (if csv_row_count st1 mod 10 = 0
                                    then st1\<lparr>row_counter_label := csv_row_count st1\<rparr> else st1)
                         in
                           if sample_count st2 mod 100 = 0 then
                             (case flush_raises w of
                                Some e \<Rightarrow> (Some e, st2)
                              | None \<Rightarrow> (None, st2\<lparr>csv_flushes := csv_flushes st2 + 1\<rparr>))
                           else (None, st2)))))"

text \<open>Lines 951-956: the two messages of channel \<open>ch_num\<close>.\<close>

definition send_channel :: "output_data \<Rightarrow> osc_client \<Rightarrow> nat \<Rightarrow> app \<Rightarrow> pyexn option \<times> app" where
  "send_channel outp osc ch_num st =
     (case outp of
        Filtered fd \<Rightarrow>
          (case fd (str ch_num) of
             None \<Rightarrow> (None, st)
           | Some ch \<Rightarrow>
               (case send_message osc (AdcRaw ch_num, PInt (raw ch)) st of
                  (Some e, st') \<Rightarrow> (Some e, st')
                | (None, st') \<Rightarrow>
                    send_message osc (AdcVoltage ch_num, PFloat (filtered_voltage ch)) st'))
      | RawChannels channels \<Rightarrow>
          (case py_contains (str ch_num) channels of
             Inl e \<Rightarrow> (Some e, st)
           | Inr False \<Rightarrow> (None, st)
           | Inr True \<Rightarrow>
               (case py_getitem channels (str ch_num) of
                  Inl e \<Rightarrow> (Some e, st)
                | Inr ch_data \<Rightarrow>
                    (case py_getitem ch_data ''raw'' of
                       Inl e \<Rightarrow> (Some e, st)
                     | Inr r \<Rightarrow>
                         (case send_message osc (AdcRaw ch_num, r) st of
                            (Some e, st') \<Rightarrow> (Some e, st')
                          | (None, st') \<Rightarrow>
                              (case py_getitem ch_data ''voltage'' of
                                 Inl e \<Rightarrow> (Some e, st')
                               | Inr v \<Rightarrow> send_message osc (AdcVoltage ch_num, v) st'))))))"

text \<open>Lines 949-959: the streaming block, the channel messages and then the thresholds.\<close>

definition send_osc :: "output_data \<Rightarrow> filtered \<Rightarrow> osc_client \<Rightarrow> app \<Rightarrow> pyexn option \<times> app" where
  "send_osc outp filtered_data osc st =
     (case for_range [0, 1, 2, 3] (send_channel outp osc) st of
        (Some e, st') \<Rightarrow> (Some e, st')
      | (None, st') \<Rightarrow> check_thresholds filtered_data osc st')"

text \<open>
  \<^verbatim>\<open>process_data\<close>: filters, the \<^verbatim>\<open>new_data\<close> signal, the CSV row, the OSC
  messages with the thresholds, and the sample counter. No statement is inside a
  \<^verbatim>\<open>try\<close>: the first exception leaves the function.
\<close>

definition process_data :: "strconv \<Rightarrow> io \<Rightarrow> pyval \<Rightarrow> osc_client \<Rightarrow> app \<Rightarrow> pyexn option \<times> app" where
  "process_data py w data osc st =
     (case apply_filters py data st of
        (Inl e, st1) \<Rightarrow> (Some e, st1)
      | (Inr filtered_data, st1) \<Rightarrow>
          (case emit_raises w of
             Some e \<Rightarrow> (Some e, st1)
           | None \<Rightarrow>
               let st2 = st1\<lparr>emitted := emitted st1 @ [data]\<rparr>;
                   use_filtered = filtered_radio st2
               in
                 (case (if use_filtered then Inr (Filtered filtered_data)
                        else map_sum id RawChannels (py_getitem data ''channels'')) of
                    Inl e \<Rightarrow> (Some e, st2)
                  | Inr outp \<Rightarrow>
                      (case (if logging_active st2 \<and> csv_writer st2 \<noteq> None
                             then log_to_csv w data outp st2 else (None, st2)) of
                         (Some e, st3) \<Rightarrow> (Some e, st3)
                       | (None, st3) \<Rightarrow>
                           (case (if streaming_active st3
                                  then send_osc outp filtered_data osc st3 else (None, st3)) of
                              (Some e, st4) \<Rightarrow> (Some e, st4)
                            | (None, st4) \<Rightarrow> (None, st4\<lparr>sample_count := sample_count st4 + 1\<rparr>))))))"

section \<open>Sample scheduler: the WiFi loop of \<^verbatim>\<open>data_acquisition_loop\<close>\<close>

text \<open>
  What one pass of the \<^verbatim>\<open>while\<close> loop observes: the flag \<^verbatim>\<open>self.running\<close>, the
  clock \<^verbatim>\<open>time.time()\<close>, the outcome of the request (the decoded frame, or the exception
  of \<^verbatim>\<open>requests.get\<close>, \<^verbatim>\<open>raise_for_status\<close> or \<^verbatim>\<open>json\<close>), and the behaviour of the
  sinks during the pass.
\<close>

record tick =
  tick_running :: bool
  tick_time :: real
  tick_fetch :: "pyexn + pyval"
  tick_io :: io
  tick_osc :: osc_client

datatype action = Sleep real | Fetch

text \<open>
  Lines 818-827, the \<^verbatim>\<open>try\<close> block of a pass: the request, then \<^verbatim>\<open>process_data\<close>.
  Every exception is caught and counted in \<^verbatim>\<open>error_count\<close>; what was mutated before the
  exception stays mutated.
\<close>

definition try_fetch :: "strconv \<Rightarrow> tick \<Rightarrow> app \<Rightarrow> app" where
  "try_fetch py t st =
     (case tick_fetch t of
        Inl e \<Rightarrow> st\<lparr>error_count := error_count st + 1\<rparr>
      | Inr data \<Rightarrow>
          (case process_data py (tick_io t) data (tick_osc t) st of
             (Some e, st1) \<Rightarrow> st1\<lparr>error_count := error_count st1 + 1\<rparr>
           | (None, st1) \<Rightarrow> st1))"

text \<open>
  Lines 812-832, one pass of the loop body on \<^verbatim>\<open>next_sample_time\<close> and \<^verbatim>\<open>self\<close>:
  sleep and \<^verbatim>\<open>continue\<close> when the clock is before \<^verbatim>\<open>next_sample_time\<close>, else the
  \<^verbatim>\<open>try\<close> block and the update of \<^verbatim>\<open>next_sample_time\<close>.
\<close>

definition loop_pass :: "strconv \<Rightarrow> real \<Rightarrow> tick \<Rightarrow> real \<times> app \<Rightarrow> action \<times> (real \<times> app)" where
  "loop_pass py sample_interval t s =
     (let next_sample_time = fst s; current_time = tick_time t in
      if current_time < next_sample_time
      then (Sleep (max 0 (next_sample_time - current_time)), s)
      else
        let st' = try_fetch py t (snd s);
            advanced = next_sample_time + sample_interval
        in (Fetch, (if advanced < current_time then current_time + sample_interval else advanced, st')))"

text \<open>
  The loop, driven by the observations of its passes; it ends when \<^verbatim>\<open>self.running\<close> is
  read false (or the observations end). It returns what each pass did and the final state.
\<close>

fun data_acquisition_loop :: "strconv \<Rightarrow> real \<Rightarrow> tick list \<Rightarrow> real \<times> app \<Rightarrow> action list \<times> (real \<times> app)" where
  "data_acquisition_loop py sample_interval [] s = ([], s)"
| "data_acquisition_loop py sample_interval (t # ts) s =
     (if \<not> tick_running t then ([], s)
      else
        (case loop_pass py sample_interval t s of
           (a, s') \<Rightarrow>
             (case data_acquisition_loop py sample_interval ts s' of
                (as, s'') \<Rightarrow> (a # as, s''))))"

section \<open>Observations and example inputs\<close>

text \<open>The alert messages of channel \<open>i\<close> among the messages sent.\<close>

fun is_alert_for :: "nat \<Rightarrow> osc_msg \<Rightarrow> bool" where
  "is_alert_for i (AdcAlert j l, x) = (j = i)"
| "is_alert_for i (AdcRaw j, x) = False"
| "is_alert_for i (AdcVoltage j, x) = False"

definition alerts_for :: "nat \<Rightarrow> osc_msg list \<Rightarrow> osc_msg list" where
  "alerts_for i ms = filter (is_alert_for i) ms"

text \<open>
  The alert that one call of \<^verbatim>\<open>check_thresholds\<close> sends for channel \<open>i\<close>, given the
  stored state \<open>old\<close>: lines 1023-1032 read as a function.
\<close>

definition alert_on_change :: "nat \<Rightarrow> level option \<Rightarrow> pyfloat \<Rightarrow> real \<Rightarrow> real \<Rightarrow> osc_msg list" where
  "alert_on_change i old v h l =
     (if old = Some (classify v h l) then []
      else if classify v h l = High then [(AdcAlert i High, PList [PFloat v, PFloat (Fin h)])]
      else if classify v h l = Low then [(AdcAlert i Low, PList [PFloat v, PFloat (Fin l)])]
      else if old = None then []
      else [(AdcAlert i Normal, PFloat v)])"

text \<open>Channel \<open>i\<close> has the same threshold state, alerts and settings in both states.\<close>

definition same_channel :: "nat \<Rightarrow> app \<Rightarrow> app \<Rightarrow> bool" where
  "same_channel i st st' =
     (threshold_states st' i = threshold_states st i \<and>
      alerts_for i (osc_sent st') = alerts_for i (osc_sent st) \<and>
      thresh_enabled st' = thresh_enabled st \<and>
      thresh_high st' = thresh_high st \<and>
      thresh_low st' = thresh_low st \<and>
      filter_enabled st' = filter_enabled st)"

text \<open>Successive calls of \<^verbatim>\<open>check_thresholds\<close>, one per frame, as streaming makes them.\<close>

fun check_thresholds_seq :: "filtered list \<Rightarrow> osc_client \<Rightarrow> app \<Rightarrow> pyexn option \<times> app" where
  "check_thresholds_seq [] osc st = (None, st)"
| "check_thresholds_seq (d # ds) osc st =
     (case check_thresholds d osc st of
        (Some e, st') \<Rightarrow> (Some e, st')
      | (None, st') \<Rightarrow> check_thresholds_seq ds osc st')"

text \<open>An OSC client whose sends all succeed, and one whose sends all raise.\<close>

definition accept_all :: osc_client where
  "accept_all = (\<lambda>m. None)"

definition reject_all :: osc_client where
  "reject_all = (\<lambda>m. Some OSError)"

text \<open>
  The state after \<^verbatim>\<open>__init__\<close> and the construction of the widgets (lines 64-95, 443-518):
  streaming on, logging off, thresholds and filters disabled, setpoints 1.0 and 0.1, window 5,
  raw output selected.
\<close>

definition app_init :: app where
  "app_init =
     \<lparr>logging_active = False, streaming_active = True, csv_writer = None, csv_row_count = 0,
      row_counter_label = 0, csv_flushes = 0, sample_count = 0, error_count = 0,
      filter_buffers = (\<lambda>i. []), threshold_states = (\<lambda>i. None),
      thresh_enabled = (\<lambda>i. False), thresh_high = (\<lambda>i. 1), thresh_low = (\<lambda>i. 1 / 10),
      filter_enabled = (\<lambda>i. False), filter_window = (\<lambda>i. 5), filtered_radio = False,
      emitted = [], osc_sent = []\<rparr>"

text \<open>The same with every threshold checkbox ticked.\<close>

definition thresh_on :: app where
  "thresh_on = app_init\<lparr>thresh_enabled := (\<lambda>i. True)\<rparr>"

text \<open>What \<^verbatim>\<open>apply_filters\<close> returns for a frame with channel 0 alone, unfiltered.\<close>

definition reading :: "real \<Rightarrow> filtered" where
  "reading v = [''0'' \<mapsto> \<lparr>raw = 0, voltage = Fin v, filtered_voltage = Fin v\<rparr>]"

text \<open>Inverted setpoints: high 0.1, low 1.0.\<close>

definition thresh_inverted :: app where
  "thresh_inverted = thresh_on\<lparr>thresh_high := (\<lambda>i. 1 / 10), thresh_low := (\<lambda>i. 1)\<rparr>"

text \<open>
  The window spin boxes are created with \<^verbatim>\<open>setRange(2, 50)\<close> (line 512), so every
  value read from one lies in that range.
\<close>

definition windows_in_range :: "app \<Rightarrow> bool" where
  "windows_in_range st = (\<forall>i \<in> set [0, 1, 2, 3]. 2 \<le> filter_window st i \<and> filter_window st i \<le> 50)"

text \<open>The second state differs from the first in the filter buffers at most.\<close>

definition only_buffers :: "app \<Rightarrow> app \<Rightarrow> bool" where
  "only_buffers st st' = (st' = st\<lparr>filter_buffers := filter_buffers st'\<rparr>)"

text \<open>
  The last \<open>n\<close> elements of a list, and their arithmetic mean in float arithmetic (NaN for
  \<open>n = 0\<close>, where there is no mean).
\<close>

definition last_n :: "nat \<Rightarrow> 'a list \<Rightarrow> 'a list" where
  "last_n n xs = drop (length xs - n) xs"

definition mean_last :: "nat \<Rightarrow> pyfloat list \<Rightarrow> pyfloat" where
  "mean_last n xs = (case float_div (py_sum (last_n n xs)) n of Inr m \<Rightarrow> m | Inl e \<Rightarrow> NaN)"

text \<open>
  No channel of the frame raises \<^verbatim>\<open>OverflowError\<close> in its conversions (an integer voltage
  beyond the range of a double, or an infinite raw value).
\<close>

definition no_overflow :: "strconv \<Rightarrow> pyval \<Rightarrow> bool" where
  "no_overflow py channels =
     (\<forall>i \<in> set [0, 1, 2, 3]. read_channel py channels i \<noteq> Inl OverflowError)"


text \<open>A string parser that knows the literal \<^verbatim>\<open>1.5\<close> and the literal \<^verbatim>\<open>7\<close>.\<close>

definition sample_conv :: strconv where
  "sample_conv =
     \<lparr>float_of_str =
        (\<lambda>s. if s = ''1.5'' then Some (Fin (3 / 2)) else if s = ''7'' then Some (Fin 7) else None),
      int_of_str = (\<lambda>s. if s = ''7'' then Some 7 else None)\<rparr>"

text \<open>A frame with channel 0 alone, and a frame with channels 0 and 1.\<close>

definition frame :: "pyval \<Rightarrow> pyval \<Rightarrow> pyval" where
  "frame r v = PDict [(''timestamp'', PInt 1000),
                      (''channels'', PDict [(''0'', PDict [(''raw'', r), (''voltage'', v)])])]"

definition frame2 :: "pyval \<Rightarrow> pyval \<Rightarrow> pyval \<Rightarrow> pyval \<Rightarrow> pyval" where
  "frame2 r0 v0 r1 v1 =
     PDict [(''timestamp'', PInt 1000),
            (''channels'', PDict [(''0'', PDict [(''raw'', r0), (''voltage'', v0)]),
                                  (''1'', PDict [(''raw'', r1), (''voltage'', v1)])])]"


text \<open>
  The reading of channel \<open>i\<close> that \<^verbatim>\<open>apply_filters\<close> accepts: the key is present and
  both conversions succeed.
\<close>

definition accepted :: "strconv \<Rightarrow> pyval \<Rightarrow> nat \<Rightarrow> (pyfloat \<times> int) option" where
  "accepted py channels i =
     (case py_contains (str i) channels of
        Inr True \<Rightarrow> (case read_channel py channels i of Inr p \<Rightarrow> Some p | Inl e \<Rightarrow> None)
      | Inr False \<Rightarrow> None
      | Inl e \<Rightarrow> None)"

text \<open>What an accepted reading \<open>(v, r)\<close> of channel \<open>i\<close> does to the buffer and the output.\<close>

definition buffer_after :: "app \<Rightarrow> nat \<Rightarrow> (pyfloat \<times> int) option \<Rightarrow> pyfloat list" where
  "buffer_after st i a =
     (case a of None \<Rightarrow> filter_buffers st i
      | Some p \<Rightarrow> deque_append 50 (filter_buffers st i) (fst p))"

definition entry_after :: "app \<Rightarrow> nat \<Rightarrow> (pyfloat \<times> int) option \<Rightarrow> chan_out option" where
  "entry_after st i a =
     (case a of None \<Rightarrow> None
      | Some p \<Rightarrow>
          Some \<lparr>raw = snd p, voltage = fst p,
                filtered_voltage =
                  (if filter_enabled st i
                   then mean_last (nat (min (filter_window st i) (int (length (buffer_after st i a)))))
                          (buffer_after st i a)
                   else fst p)\<rparr>)"

text \<open>
  Reading the result of \<^verbatim>\<open>apply_filters\<close>: the exception it raised, if any, and the entry
  of channel \<open>i\<close> in the dictionary it returned.
\<close>

definition raised :: "(pyexn + filtered) \<times> app \<Rightarrow> pyexn option" where
  "raised res = (case fst res of Inl e \<Rightarrow> Some e | Inr fd \<Rightarrow> None)"

definition returned_entry :: "(pyexn + filtered) \<times> app \<Rightarrow> nat \<Rightarrow> chan_out option" where
  "returned_entry res i = (case fst res of Inl e \<Rightarrow> None | Inr fd \<Rightarrow> fd (str i))"


text \<open>Sinks that do not fail, a writer that fails, and a signal that fails.\<close>

definition quiet_io :: io where
  "quiet_io = \<lparr>emit_raises = None, now_iso = ''2026-01-01T00:00:00'', writerow_raises = None,
               flush_raises = None\<rparr>"

definition failing_writer :: io where
  "failing_writer = quiet_io\<lparr>writerow_raises := Some OSError\<rparr>"

definition failing_emit :: io where
  "failing_emit = quiet_io\<lparr>emit_raises := Some OSError\<rparr>"

text \<open>A pass at clock time \<open>now\<close> whose request fails, and one that receives a frame.\<close>

definition failed_tick :: "real \<Rightarrow> tick" where
  "failed_tick now =
     \<lparr>tick_running = True, tick_time = now, tick_fetch = Inl OSError, tick_io = quiet_io,
      tick_osc = accept_all\<rparr>"

definition frame_tick :: "real \<Rightarrow> io \<Rightarrow> osc_client \<Rightarrow> pyval \<Rightarrow> tick" where
  "frame_tick now w osc data =
     \<lparr>tick_running = True, tick_time = now, tick_fetch = Inr data, tick_io = w, tick_osc = osc\<rparr>"

text \<open>
  A state with the fields a step may write erased: two states with equal erasures differ in
  those fields at most. The OSC messages write \<open>osc_sent\<close>, the threshold engine also
  \<open>threshold_states\<close>, and the CSV block the writer, its counter, the label and the flushes.
\<close>

definition erase_sent :: "app \<Rightarrow> app" where
  "erase_sent st = st\<lparr>osc_sent := []\<rparr>"

definition erase_osc :: "app \<Rightarrow> app" where
  "erase_osc st = st\<lparr>threshold_states := (\<lambda>i. None), osc_sent := []\<rparr>"

definition erase_log :: "app \<Rightarrow> app" where
  "erase_log st = st\<lparr>csv_writer := None, csv_row_count := 0, row_counter_label := 0, csv_flushes := 0\<rparr>"

text \<open>The number of rows written to the CSV file.\<close>

definition rows_written :: "app \<Rightarrow> nat" where
  "rows_written st = (case csv_writer st of None \<Rightarrow> 0 | Some rows \<Rightarrow> length rows)"

text \<open>
  A frame in the shape of the device payload: a dictionary whose \<^verbatim>\<open>channels\<close> is a
  dictionary in which every channel present is a dictionary with the keys \<^verbatim>\<open>raw\<close> and
  \<^verbatim>\<open>voltage\<close>, none of whose conversions overflows.
\<close>

definition valid_entry :: "pyval \<Rightarrow> bool" where
  "valid_entry x =
     (case x of PDict kvs \<Rightarrow> map_of kvs ''raw'' \<noteq> None \<and> map_of kvs ''voltage'' \<noteq> None
      | _ \<Rightarrow> False)"

definition valid_channels :: "pyval \<Rightarrow> bool" where
  "valid_channels channels =
     (case channels of
        PDict kvs \<Rightarrow>
          (\<forall>i \<in> set [0, 1, 2, 3]. case map_of kvs (str i) of None \<Rightarrow> True | Some x \<Rightarrow> valid_entry x)
      | _ \<Rightarrow> False)"

definition valid_sample :: "strconv \<Rightarrow> pyval \<Rightarrow> bool" where
  "valid_sample py data =
     (case py_getitem data ''channels'' of
        Inr channels \<Rightarrow> valid_channels channels \<and> no_overflow py channels
      | Inl e \<Rightarrow> False)"

text \<open>
  A pass that receives a valid frame while the signal and the CSV file work; the OSC client of
  the pass is arbitrary.
\<close>

definition log_sink_works :: "strconv \<Rightarrow> tick \<Rightarrow> bool" where
  "log_sink_works py t =
     ((case tick_fetch t of Inr data \<Rightarrow> valid_sample py data | Inl e \<Rightarrow> False) \<and>
      emit_raises (tick_io t) = None \<and> writerow_raises (tick_io t) = None \<and>
      flush_raises (tick_io t) = None)"

text \<open>The initial state with logging started on an empty file.\<close>

definition logging_on :: app where
  "logging_on = app_init\<lparr>logging_active := True, csv_writer := Some []\<rparr>"

text \<open>The initial state with thresholds enabled and streaming switched off.\<close>

definition streaming_off :: app where
  "streaming_off = thresh_on\<lparr>streaming_active := False\<rparr>"

text \<open>The initial state with a full history (fifty readings of 1.0) on every channel.\<close>

definition full_history :: app where
  "full_history = app_init\<lparr>filter_buffers := (\<lambda>i. replicate 50 (Fin 1))\<rparr>"

text \<open>
  Two frames with channels 0 and 1 whose channel 0 cannot be converted: the JSON texts
  \<^verbatim>\<open>{"channels": {"0": {"raw": Infinity, "voltage": 1.0}, "1": {"raw": 3, "voltage": 0.5}}}\<close>
  and the same with \<^verbatim>\<open>"raw": 1\<close> and, as voltage of channel 0, the integer \<open>10^309\<close>.
\<close>

definition infinite_raw_frame :: pyval where
  "infinite_raw_frame = frame2 (PFloat PosInf) (PFloat (Fin 1)) (PInt 3) (PFloat (Fin (1 / 2)))"

definition huge_voltage_frame :: pyval where
  "huge_voltage_frame = frame2 (PInt 1) (PInt (10 ^ 309)) (PInt 3) (PFloat (Fin (1 / 2)))"

section \<open>Helper lemmas\<close>

lemma str_digit: "n < 10 \<Longrightarrow> str n = [digit_char n]"
  by (simp add: str.simps)

lemma str_channel:
  "str 0 = ''0''" "str 1 = ''1''" "str (Suc 0) = ''1''" "str 2 = ''2''" "str 3 = ''3''"
  by (simp_all add: str_digit digit_char_def)

lemma str_inj: "i < 4 \<Longrightarrow> j < 4 \<Longrightarrow> (str i = str j) = (i = j)"
proof -
  assume "i < 4" and "j < 4"
  then have "i = 0 \<or> i = 1 \<or> i = 2 \<or> i = 3" and "j = 0 \<or> j = 1 \<or> j = 2 \<or> j = 3"
    by linarith+
  then show ?thesis
    by (auto simp: str_channel)
qed

lemma for_range_append:
  "for_range (xs @ ys) body s =
     (case for_range xs body s of (Some e, s') \<Rightarrow> (Some e, s') | (None, s') \<Rightarrow> for_range ys body s')"
  by (induction xs arbitrary: s) (auto split: prod.splits option.splits)

lemma channels_split:
  "(i::nat) < 4 \<Longrightarrow> \<exists>pre post. [0, 1, 2, 3] = pre @ i # post \<and> i \<notin> set pre \<and> i \<notin> set post"
proof -
  assume "i < 4"
  then consider "i = 0" | "i = 1" | "i = 2" | "i = 3" by linarith
  then show ?thesis
  proof cases
    case 1 then show ?thesis by (intro exI[of _ "[]"] exI[of _ "[1,2,3]"]) simp
  next
    case 2 then show ?thesis by (intro exI[of _ "[0]"] exI[of _ "[2,3]"]) simp
  next
    case 3 then show ?thesis by (intro exI[of _ "[0,1]"] exI[of _ "[3]"]) simp
  next
    case 4 then show ?thesis by (intro exI[of _ "[0,1,2]"] exI[of _ "[]"]) simp
  qed
qed

subsection \<open>One call of the threshold engine, channel by channel\<close>

lemma same_channel_refl: "same_channel i st st"
  by (simp add: same_channel_def)

lemma same_channel_trans: "same_channel i a b \<Longrightarrow> same_channel i b c \<Longrightarrow> same_channel i a c"
  by (simp add: same_channel_def)

lemma body_other:
  assumes "j \<noteq> i"
  shows "fst (check_thresholds_body data accept_all j st) = None \<and>
         same_channel i st (snd (check_thresholds_body data accept_all j st))"
  using assms
  by (auto simp: check_thresholds_body_def send_message_def alerts_for_def Let_def same_channel_def
      accept_all_def split: option.splits level.splits)

lemma loop_other:
  assumes "i \<notin> set js"
  shows "fst (for_range js (check_thresholds_body data accept_all) st) = None \<and>
         same_channel i st (snd (for_range js (check_thresholds_body data accept_all) st))"
  using assms
proof (induction js arbitrary: st)
  case Nil
  show ?case by (simp add: same_channel_refl)
next
  case (Cons j js)
  obtain r st1 where b: "check_thresholds_body data accept_all j st = (r, st1)"
    by (cases "check_thresholds_body data accept_all j st")
  from Cons.prems have ji: "j \<noteq> i" and rest: "i \<notin> set js" by auto
  from body_other[OF ji, of data st] b
  have r: "r = None" and s1: "same_channel i st st1" by auto
  from Cons.IH[OF rest, of st1]
  have "fst (for_range js (check_thresholds_body data accept_all) st1) = None"
    and "same_channel i st1 (snd (for_range js (check_thresholds_body data accept_all) st1))" by auto
  with r s1 b show ?case
    by (auto intro: same_channel_trans)
qed

lemma body_self:
  assumes "data (str i) = Some ch" "thresh_enabled st i"
  shows "fst (check_thresholds_body data accept_all i st) = None \<and>
         threshold_states (snd (check_thresholds_body data accept_all i st)) i
           = Some (classify (threshold_input st i ch) (thresh_high st i) (thresh_low st i)) \<and>
         alerts_for i (osc_sent (snd (check_thresholds_body data accept_all i st)))
           = alerts_for i (osc_sent st) @
             alert_on_change i (threshold_states st i) (threshold_input st i ch) (thresh_high st i) (thresh_low st i) \<and>
         thresh_enabled (snd (check_thresholds_body data accept_all i st)) = thresh_enabled st \<and>
         thresh_high (snd (check_thresholds_body data accept_all i st)) = thresh_high st \<and>
         thresh_low (snd (check_thresholds_body data accept_all i st)) = thresh_low st \<and>
         filter_enabled (snd (check_thresholds_body data accept_all i st)) = filter_enabled st"
  using assms
  by (auto simp: check_thresholds_body_def send_message_def alerts_for_def Let_def alert_on_change_def
      accept_all_def split: option.splits level.splits)

lemma check_thresholds_step:
  assumes i: "i < 4" and ch: "data (str i) = Some ch" and en: "thresh_enabled st i"
  shows "fst (check_thresholds data accept_all st) = None \<and>
         threshold_states (snd (check_thresholds data accept_all st)) i
           = Some (classify (threshold_input st i ch) (thresh_high st i) (thresh_low st i)) \<and>
         alerts_for i (osc_sent (snd (check_thresholds data accept_all st)))
           = alerts_for i (osc_sent st) @
             alert_on_change i (threshold_states st i) (threshold_input st i ch) (thresh_high st i) (thresh_low st i) \<and>
         thresh_enabled (snd (check_thresholds data accept_all st)) = thresh_enabled st \<and>
         thresh_high (snd (check_thresholds data accept_all st)) = thresh_high st \<and>
         thresh_low (snd (check_thresholds data accept_all st)) = thresh_low st \<and>
         filter_enabled (snd (check_thresholds data accept_all st)) = filter_enabled st"
proof -
  let ?B = "check_thresholds_body data accept_all"
  from channels_split[OF i] obtain pre post
    where sp: "[0, 1, 2, 3] = pre @ i # post" and npre: "i \<notin> set pre" and npost: "i \<notin> set post"
    by blast
  obtain st1 where p1: "for_range pre ?B st = (None, st1)"
    using loop_other[OF npre, of data st] by (cases "for_range pre ?B st") auto
  have s1: "same_channel i st st1"
    using loop_other[OF npre, of data st] p1 by simp
  have en1: "thresh_enabled st1 i" using s1 en by (simp add: same_channel_def)
  obtain st2 where p2: "?B i st1 = (None, st2)"
    using body_self[where data=data and i=i and ch=ch and st=st1] ch en1
    by (cases "?B i st1") auto
  have b2: "threshold_states st2 i
           = Some (classify (threshold_input st1 i ch) (thresh_high st1 i) (thresh_low st1 i)) \<and>
         alerts_for i (osc_sent st2)
           = alerts_for i (osc_sent st1) @
             alert_on_change i (threshold_states st1 i) (threshold_input st1 i ch) (thresh_high st1 i) (thresh_low st1 i) \<and>
         thresh_enabled st2 = thresh_enabled st1 \<and>
         thresh_high st2 = thresh_high st1 \<and>
         thresh_low st2 = thresh_low st1 \<and>
         filter_enabled st2 = filter_enabled st1"
    using body_self[where data=data and i=i and ch=ch and st=st1] ch en1 p2
    by simp
  obtain st3 where p3: "for_range post ?B st2 = (None, st3)"
    using loop_other[OF npost, of data st2] by (cases "for_range post ?B st2") auto
  have s3: "same_channel i st2 st3"
    using loop_other[OF npost, of data st2] p3 by simp
  have res: "check_thresholds data accept_all st = (None, st3)"
    unfolding check_thresholds_def sp by (simp add: for_range_append p1 p2 p3)
  show ?thesis
    unfolding res using s1 b2 s3
    by (simp add: same_channel_def threshold_input_def)
qed

section \<open>The threshold engine\<close>

text \<open>
  C8. For every value \<open>v\<close> (finite, infinite or NaN) and every pair of setpoints, in any
  order, the call returns without an exception (the client accepting the alert) and the state
  stored for an enabled channel present in the frame is High if \<open>v > H\<close>, else Low if
  \<open>v < L\<close>, else Normal; with inverted setpoints a value between them is High, the first
  comparison winning. For a finite value the comparisons are those of the reals.
\<close>

theorem check_thresholds_classifies:
  assumes "i < 4" and "data (str i) = Some ch" and "thresh_enabled st i"
  shows "fst (check_thresholds data accept_all st) = None \<and>
         threshold_states (snd (check_thresholds data accept_all st)) i =
           Some (if float_gt (threshold_input st i ch) (thresh_high st i) then High
                 else if float_lt (threshold_input st i ch) (thresh_low st i) then Low
                 else Normal) \<and>
         (threshold_input st i ch = Fin x \<longrightarrow>
            threshold_states (snd (check_thresholds data accept_all st)) i =
              Some (if x > thresh_high st i then High
                    else if x < thresh_low st i then Low
                    else Normal)) \<and>
         (threshold_input st i ch = Fin x \<and> thresh_high st i < x \<and> x < thresh_low st i
            \<longrightarrow> threshold_states (snd (check_thresholds data accept_all st)) i = Some High)"
  using check_thresholds_step[where i=i and data=data and ch=ch and st=st] assms
  by (simp add: classify_def)

theorem check_thresholds_classifies_witness:
  "(0::nat) < 4 \<and>
   reading (1 / 2) (str 0) =
     Some \<lparr>raw = 0, voltage = Fin (1 / 2), filtered_voltage = Fin (1 / 2)\<rparr> \<and>
   thresh_enabled thresh_inverted 0 \<and>
   threshold_input thresh_inverted 0
     \<lparr>raw = 0, voltage = Fin (1 / 2), filtered_voltage = Fin (1 / 2)\<rparr> = Fin (1 / 2) \<and>
   thresh_high thresh_inverted 0 < 1 / 2 \<and> 1 / 2 < thresh_low thresh_inverted 0 \<and>
   fst (check_thresholds (reading (1 / 2)) accept_all thresh_inverted) = None \<and>
   threshold_states (snd (check_thresholds (reading (1 / 2)) accept_all thresh_inverted)) 0 = Some High"
  using check_thresholds_classifies[of 0 "reading (1 / 2)"
      "\<lparr>raw = 0, voltage = Fin (1 / 2), filtered_voltage = Fin (1 / 2)\<rparr>" thresh_inverted
      "1 / 2"]
  by (simp add: reading_def str_channel thresh_inverted_def thresh_on_def app_init_def
      threshold_input_def)

lemma alert_on_change_length:
  "length (alert_on_change i old v h l) =
     (if old = None then (if classify v h l = Normal then 0 else 1)
      else if old = Some (classify v h l) then 0 else 1)"
  by (cases "classify v h l") (auto simp: alert_on_change_def)

text \<open>
  C1, as the code has it. For an enabled channel present in the frame, one call stores the
  classification of the value and sends, for that channel: on the first classification
  (stored state \<open>None\<close>) no alert when it is Normal and one alert when it is High or Low;
  afterwards one alert when the classification differs from the stored one, and none when it is
  the same.
\<close>

theorem check_thresholds_events:
  assumes "i < 4" and "data (str i) = Some ch" and "thresh_enabled st i"
  shows "threshold_states (snd (check_thresholds data accept_all st)) i =
           Some (classify (threshold_input st i ch) (thresh_high st i) (thresh_low st i)) \<and>
         alerts_for i (osc_sent (snd (check_thresholds data accept_all st))) =
           alerts_for i (osc_sent st) @
           alert_on_change i (threshold_states st i) (threshold_input st i ch)
             (thresh_high st i) (thresh_low st i) \<and>
         length (alert_on_change i (threshold_states st i) (threshold_input st i ch)
             (thresh_high st i) (thresh_low st i)) =
           (if threshold_states st i = None
            then (if classify (threshold_input st i ch) (thresh_high st i) (thresh_low st i) = Normal
                  then 0 else 1)
            else if threshold_states st i =
                    Some (classify (threshold_input st i ch) (thresh_high st i) (thresh_low st i))
                 then 0 else 1)"
  using check_thresholds_step[where i=i and data=data and ch=ch and st=st] assms
  by (simp add: alert_on_change_length)

theorem check_thresholds_events_witness:
  "(0::nat) < 4 \<and>
   reading 2 (str 0) = Some \<lparr>raw = 0, voltage = Fin 2, filtered_voltage = Fin 2\<rparr> \<and>
   thresh_enabled thresh_on 0 \<and>
   threshold_states thresh_on 0 = None \<and>
   threshold_states (snd (check_thresholds (reading 2) accept_all thresh_on)) 0 = Some High \<and>
   alerts_for 0 (osc_sent (snd (check_thresholds (reading 2) accept_all thresh_on))) =
     [(AdcAlert 0 High, PList [PFloat (Fin 2), PFloat (Fin 1)])]"
  using check_thresholds_events[of 0 "reading 2" "\<lparr>raw = 0, voltage = Fin 2, filtered_voltage = Fin 2\<rparr>"
      thresh_on]
  by (simp add: reading_def str_channel thresh_on_def app_init_def threshold_input_def
      classify_def alert_on_change_def alerts_for_def)

text \<open>
  The claim as written fails: from the initial state, a first classification High sends the
  alert \<^verbatim>\<open>/adc/alert/ch0/high\<close>.
\<close>

theorem first_classification_high_counterexample:
  "threshold_states thresh_on 0 = None \<and>
   osc_sent thresh_on = [] \<and>
   osc_sent (snd (check_thresholds (reading 2) accept_all thresh_on)) =
     [(AdcAlert 0 High, PList [PFloat (Fin 2), PFloat (Fin 1)])]"
  by (simp add: check_thresholds_def check_thresholds_body_def send_message_def accept_all_def
      reading_def str_channel thresh_on_def app_init_def threshold_input_def classify_def Let_def)

text \<open>
  C3, as the code has it. With high setpoint 1.0 and low setpoint 0.1 on an enabled channel in
  its initial state, the values 0.05, 0.5, 0.95 send two alerts for that channel: Low at 0.05
  (the first classification is not suppressed when it is Low), Normal at 0.5, and nothing at
  0.95.
\<close>

theorem hysteresis_sequence:
  assumes i: "i < 4" and en: "thresh_enabled st i"
    and h: "thresh_high st i = 1" and l: "thresh_low st i = 0.1"
    and unset: "threshold_states st i = None"
    and d1: "d1 (str i) = Some c1" and d2: "d2 (str i) = Some c2" and d3: "d3 (str i) = Some c3"
    and v1: "threshold_input st i c1 = Fin 0.05"
    and v2: "threshold_input st i c2 = Fin 0.5"
    and v3: "threshold_input st i c3 = Fin 0.95"
  shows "fst (check_thresholds_seq [d1, d2, d3] accept_all st) = None \<and>
         alerts_for i (osc_sent (snd (check_thresholds_seq [d1, d2, d3] accept_all st))) =
           alerts_for i (osc_sent st) @
           [(AdcAlert i Low, PList [PFloat (Fin 0.05), PFloat (Fin 0.1)]), (AdcAlert i Normal, PFloat (Fin 0.5))]"
proof -
  obtain st1 where r1: "check_thresholds d1 accept_all st = (None, st1)"
    using check_thresholds_step[where i=i and data=d1 and ch=c1 and st=st] i d1 en by (cases "check_thresholds d1 accept_all st") auto
  have s1: "threshold_states st1 i = Some Low"
    "alerts_for i (osc_sent st1) =
       alerts_for i (osc_sent st) @ [(AdcAlert i Low, PList [PFloat (Fin 0.05), PFloat (Fin 0.1)])]"
    "thresh_enabled st1 = thresh_enabled st" "thresh_high st1 = thresh_high st"
    "thresh_low st1 = thresh_low st" "filter_enabled st1 = filter_enabled st"
    using check_thresholds_step[where i=i and data=d1 and ch=c1 and st=st] i d1 en r1 h l unset v1
    by (simp_all add: classify_def alert_on_change_def)
  have en1: "thresh_enabled st1 i" using s1 en by simp
  have v2': "threshold_input st1 i c2 = Fin 0.5" using v2 s1 by (simp add: threshold_input_def)
  obtain st2 where r2: "check_thresholds d2 accept_all st1 = (None, st2)"
    using check_thresholds_step[where i=i and data=d2 and ch=c2 and st=st1] i d2 en1 by (cases "check_thresholds d2 accept_all st1") auto
  have s2: "threshold_states st2 i = Some Normal"
    "alerts_for i (osc_sent st2) =
       alerts_for i (osc_sent st1) @ [(AdcAlert i Normal, PFloat (Fin 0.5))]"
    "thresh_enabled st2 = thresh_enabled st" "thresh_high st2 = thresh_high st"
    "thresh_low st2 = thresh_low st" "filter_enabled st2 = filter_enabled st"
    using check_thresholds_step[where i=i and data=d2 and ch=c2 and st=st1] i d2 en1 r2 h l s1 v2'
    by (simp_all add: classify_def alert_on_change_def)
  have en2: "thresh_enabled st2 i" using s2 en by simp
  have v3': "threshold_input st2 i c3 = Fin 0.95" using v3 s2 by (simp add: threshold_input_def)
  obtain st3 where r3: "check_thresholds d3 accept_all st2 = (None, st3)"
    using check_thresholds_step[where i=i and data=d3 and ch=c3 and st=st2] i d3 en2 by (cases "check_thresholds d3 accept_all st2") auto
  have s3: "alerts_for i (osc_sent st3) = alerts_for i (osc_sent st2)"
    using check_thresholds_step[where i=i and data=d3 and ch=c3 and st=st2] i d3 en2 r3 h l s2 v3'
    by (simp add: classify_def alert_on_change_def)
  show ?thesis
    using r1 r2 r3 s1(2) s2(2) s3 by simp
qed

theorem hysteresis_sequence_witness:
  "(0::nat) < 4 \<and> thresh_enabled thresh_on 0 \<and>
   thresh_high thresh_on 0 = 1 \<and> thresh_low thresh_on 0 = 0.1 \<and>
   threshold_states thresh_on 0 = None \<and>
   reading 0.05 (str 0) = Some \<lparr>raw = 0, voltage = Fin 0.05, filtered_voltage = Fin 0.05\<rparr> \<and>
   reading 0.5 (str 0) = Some \<lparr>raw = 0, voltage = Fin 0.5, filtered_voltage = Fin 0.5\<rparr> \<and>
   reading 0.95 (str 0) = Some \<lparr>raw = 0, voltage = Fin 0.95, filtered_voltage = Fin 0.95\<rparr> \<and>
   fst (check_thresholds_seq [reading 0.05, reading 0.5, reading 0.95] accept_all thresh_on) = None \<and>
   alerts_for 0 (osc_sent (snd (check_thresholds_seq [reading 0.05, reading 0.5, reading 0.95]
       accept_all thresh_on))) =
     [(AdcAlert 0 Low, PList [PFloat (Fin 0.05), PFloat (Fin 0.1)]), (AdcAlert 0 Normal, PFloat (Fin 0.5))]"
  using hysteresis_sequence[of 0 thresh_on "reading 0.05"
      "\<lparr>raw = 0, voltage = Fin 0.05, filtered_voltage = Fin 0.05\<rparr>" "reading 0.5"
      "\<lparr>raw = 0, voltage = Fin 0.5, filtered_voltage = Fin 0.5\<rparr>" "reading 0.95"
      "\<lparr>raw = 0, voltage = Fin 0.95, filtered_voltage = Fin 0.95\<rparr>"]
  by (simp add: reading_def str_channel thresh_on_def app_init_def threshold_input_def
      alerts_for_def)

text \<open>
  The claim as written fails: the sequence sends two alerts, not one, the first being the Low
  alert of the first classification.
\<close>

theorem hysteresis_sequence_counterexample:
  "osc_sent thresh_on = [] \<and>
   osc_sent (snd (check_thresholds_seq [reading 0.05, reading 0.5, reading 0.95]
       accept_all thresh_on)) =
     [(AdcAlert 0 Low, PList [PFloat (Fin 0.05), PFloat (Fin 0.1)]), (AdcAlert 0 Normal, PFloat (Fin 0.5))] \<and>
   length (osc_sent (snd (check_thresholds_seq [reading 0.05, reading 0.5, reading 0.95]
       accept_all thresh_on))) \<noteq> 1"
  by (simp add: check_thresholds_def check_thresholds_body_def send_message_def accept_all_def
      reading_def str_channel thresh_on_def app_init_def threshold_input_def classify_def Let_def)

subsection \<open>One call of the filter engine, channel by channel\<close>

lemma py_getitem_error: "py_getitem x k = Inl e \<Longrightarrow> e = KeyError \<or> e = TypeError"
  by (cases x) (auto split: option.splits)

lemma py_float_error:
  "py_float py x = Inl e \<Longrightarrow> e = ValueError \<or> e = TypeError \<or> e = OverflowError"
  by (cases x) (auto split: option.splits if_splits)

lemma py_int_error:
  "py_int py x = Inl e \<Longrightarrow> e = ValueError \<or> e = TypeError \<or> e = OverflowError"
proof (cases x)
  case (PFloat f)
  then show "py_int py x = Inl e \<Longrightarrow> ?thesis" by (cases f) auto
qed (auto split: option.splits)

lemma read_channel_error:
  "read_channel py channels i = Inl e \<Longrightarrow>
   e = ValueError \<or> e = TypeError \<or> e = KeyError \<or> e = OverflowError"
  unfolding read_channel_def
  by (auto split: sum.splits dest: py_getitem_error py_float_error py_int_error)

lemma float_div_pos: "0 < n \<Longrightarrow> \<exists>m. float_div x n = Inr m"
  by (cases x; cases n) simp_all



lemma deque_append_nonempty: "deque_append n buf x \<noteq> []"
  by (simp add: deque_append_def)

lemma recent_window:
  assumes "1 \<le> w" and "buf \<noteq> []"
  shows "py_last (min w (int (length buf))) buf = drop (length buf - nat (min w (int (length buf)))) buf"
    and "py_last (min w (int (length buf))) buf \<noteq> []"
    and "length (py_last (min w (int (length buf))) buf) = nat (min w (int (length buf)))"
  using assms by (auto simp: py_last_def min_def)

lemma only_buffers_refl: "only_buffers st st"
  by (simp add: only_buffers_def)

lemma only_buffers_trans: "only_buffers a b \<Longrightarrow> only_buffers b c \<Longrightarrow> only_buffers a c"
  unfolding only_buffers_def
  by (metis app.surjective app.update_convs(9))

lemma filter_body:
  assumes ok: "filter_enabled (fst s) i \<longrightarrow> 1 \<le> filter_window (fst s) i"
    and no: "read_channel py (PDict kvs) i \<noteq> Inl OverflowError"
  shows "apply_filters_body py (PDict kvs) i s =
           (None,
            (case accepted py (PDict kvs) i of
               None \<Rightarrow> s
             | Some p \<Rightarrow>
                 ((fst s)\<lparr>filter_buffers :=
                    (filter_buffers (fst s))(i := buffer_after (fst s) i (accepted py (PDict kvs) i))\<rparr>,
                  (snd s)(str i := entry_after (fst s) i (accepted py (PDict kvs) i)))))"
proof (cases "map_of kvs (str i)")
  case None
  then show ?thesis by (simp add: apply_filters_body_def accepted_def)
next
  case (Some entry)
  show ?thesis
  proof (cases "read_channel py (PDict kvs) i")
    case (Inl e)
    with Some read_channel_error[OF Inl] no show ?thesis
      by (auto simp: apply_filters_body_def accepted_def)
  next
    case (Inr p)
    obtain v r where p: "p = (v, r)" by (cases p)
    let ?buf = "deque_append 50 (filter_buffers (fst s) i) v"
    have ne: "?buf \<noteq> []" by (rule deque_append_nonempty)
    show ?thesis
    proof (cases "filter_enabled (fst s) i")
      case False
      with Some Inr p ne show ?thesis
        by (simp add: apply_filters_body_def accepted_def buffer_after_def entry_after_def Let_def)
    next
      case True
      with ok have w: "1 \<le> filter_window (fst s) i" by simp
      let ?n = "nat (min (filter_window (fst s) i) (int (length ?buf)))"
      have n: "0 < ?n" using w ne by simp
      from float_div_pos[OF n] obtain m where
        m: "float_div (py_sum (drop (length ?buf - ?n) ?buf)) ?n = Inr m" by blast
      then have ml: "mean_last ?n ?buf = m" by (simp add: mean_last_def last_n_def)
      from recent_window[OF w ne] True Some Inr p ne m ml show ?thesis
        by (simp add: apply_filters_body_def accepted_def buffer_after_def entry_after_def Let_def)
    qed
  qed
qed

lemma only_buffers_fields:
  assumes "only_buffers st st'"
  shows "filter_enabled st' = filter_enabled st" and "filter_window st' = filter_window st"
    and "windows_in_range st' = windows_in_range st"
    and "logging_active st' = logging_active st" and "streaming_active st' = streaming_active st"
    and "csv_writer st' = csv_writer st" and "csv_row_count st' = csv_row_count st"
    and "sample_count st' = sample_count st" and "error_count st' = error_count st"
    and "threshold_states st' = threshold_states st" and "thresh_enabled st' = thresh_enabled st"
    and "thresh_high st' = thresh_high st" and "thresh_low st' = thresh_low st"
    and "filtered_radio st' = filtered_radio st" and "emitted st' = emitted st"
    and "osc_sent st' = osc_sent st"
proof -
  from assms have e: "st' = st\<lparr>filter_buffers := filter_buffers st'\<rparr>"
    by (simp add: only_buffers_def)
  show "filter_enabled st' = filter_enabled st" by (subst e) simp
  show "filter_window st' = filter_window st" by (subst e) simp
  then show "windows_in_range st' = windows_in_range st" by (simp add: windows_in_range_def)
  show "logging_active st' = logging_active st" by (subst e) simp
  show "streaming_active st' = streaming_active st" by (subst e) simp
  show "csv_writer st' = csv_writer st" by (subst e) simp
  show "csv_row_count st' = csv_row_count st" by (subst e) simp
  show "sample_count st' = sample_count st" by (subst e) simp
  show "error_count st' = error_count st" by (subst e) simp
  show "threshold_states st' = threshold_states st" by (subst e) simp
  show "thresh_enabled st' = thresh_enabled st" by (subst e) simp
  show "thresh_high st' = thresh_high st" by (subst e) simp
  show "thresh_low st' = thresh_low st" by (subst e) simp
  show "filtered_radio st' = filtered_radio st" by (subst e) simp
  show "emitted st' = emitted st" by (subst e) simp
  show "osc_sent st' = osc_sent st" by (subst e) simp
qed

lemma after_same:
  assumes "only_buffers st st'" and "filter_buffers st' i = filter_buffers st i"
  shows "buffer_after st' i a = buffer_after st i a" and "entry_after st' i a = entry_after st i a"
proof -
  show b: "buffer_after st' i a = buffer_after st i a"
    using assms(2) by (simp add: buffer_after_def split: option.splits)
  show "entry_after st' i a = entry_after st i a"
    using only_buffers_fields(1,2)[OF assms(1)] b
    by (cases a) (simp_all add: entry_after_def)
qed

lemma window_ok:
  assumes "windows_in_range st" and "i < 4"
  shows "2 \<le> filter_window st i" and "filter_window st i \<le> 50"
proof -
  from assms(2) have "i = 0 \<or> i = 1 \<or> i = 2 \<or> i = 3" by linarith
  with assms(1) show "2 \<le> filter_window st i" and "filter_window st i \<le> 50"
    by (auto simp: windows_in_range_def)
qed

lemma filter_body_step:
  assumes "windows_in_range (fst s)" and "j < 4"
    and "read_channel py (PDict kvs) j \<noteq> Inl OverflowError"
  shows "\<exists>s'. apply_filters_body py (PDict kvs) j s = (None, s') \<and>
           only_buffers (fst s) (fst s') \<and>
           filter_buffers (fst s') j = buffer_after (fst s) j (accepted py (PDict kvs) j) \<and>
           snd s' (str j) =
             (case accepted py (PDict kvs) j of None \<Rightarrow> snd s (str j)
              | Some p \<Rightarrow> entry_after (fst s) j (accepted py (PDict kvs) j)) \<and>
           (\<forall>i. i < 4 \<and> i \<noteq> j \<longrightarrow>
              filter_buffers (fst s') i = filter_buffers (fst s) i \<and> snd s' (str i) = snd s (str i))"
proof -
  from window_ok(1)[OF assms(1,2)] have ok: "filter_enabled (fst s) j \<longrightarrow> 1 \<le> filter_window (fst s) j"
    by simp
  show ?thesis
    unfolding filter_body[OF ok assms(3)]
    using assms(2)
    by (cases "accepted py (PDict kvs) j")
      (auto simp: only_buffers_def buffer_after_def str_inj)
qed

lemma filter_loop:
  assumes "windows_in_range (fst s)" and "\<forall>j \<in> set js. j < 4" and "distinct js"
    and "\<forall>j \<in> set js. read_channel py (PDict kvs) j \<noteq> Inl OverflowError"
  shows "\<exists>s'. for_range js (apply_filters_body py (PDict kvs)) s = (None, s') \<and>
           only_buffers (fst s) (fst s') \<and>
           (\<forall>i. i < 4 \<longrightarrow>
              (if i \<in> set js
               then filter_buffers (fst s') i = buffer_after (fst s) i (accepted py (PDict kvs) i) \<and>
                    snd s' (str i) =
                      (case accepted py (PDict kvs) i of None \<Rightarrow> snd s (str i)
                       | Some p \<Rightarrow> entry_after (fst s) i (accepted py (PDict kvs) i))
               else filter_buffers (fst s') i = filter_buffers (fst s) i \<and>
                    snd s' (str i) = snd s (str i)))"
  using assms
proof (induction js arbitrary: s)
  case Nil
  show ?case by (simp add: only_buffers_refl)
next
  case (Cons j js)
  from Cons.prems have j4: "j < 4" and js4: "\<forall>k \<in> set js. k < 4"
    and jn: "j \<notin> set js" and d: "distinct js"
    and nj: "read_channel py (PDict kvs) j \<noteq> Inl OverflowError"
    and njs: "\<forall>k \<in> set js. read_channel py (PDict kvs) k \<noteq> Inl OverflowError" by auto
  from filter_body_step[OF Cons.prems(1) j4 nj] obtain s1 where
    b: "apply_filters_body py (PDict kvs) j s = (None, s1)"
    and o1: "only_buffers (fst s) (fst s1)"
    and bj: "filter_buffers (fst s1) j = buffer_after (fst s) j (accepted py (PDict kvs) j)"
    and ej: "snd s1 (str j) =
             (case accepted py (PDict kvs) j of None \<Rightarrow> snd s (str j)
              | Some p \<Rightarrow> entry_after (fst s) j (accepted py (PDict kvs) j))"
    and oth: "\<forall>i. i < 4 \<and> i \<noteq> j \<longrightarrow>
              filter_buffers (fst s1) i = filter_buffers (fst s) i \<and> snd s1 (str i) = snd s (str i)"
    by blast
  have w1: "windows_in_range (fst s1)"
    using only_buffers_fields(3)[OF o1] Cons.prems(1) by simp
  from Cons.IH[OF w1 js4 d njs] obtain s2 where
    l: "for_range js (apply_filters_body py (PDict kvs)) s1 = (None, s2)"
    and o2: "only_buffers (fst s1) (fst s2)"
    and all: "\<forall>i. i < 4 \<longrightarrow>
              (if i \<in> set js
               then filter_buffers (fst s2) i = buffer_after (fst s1) i (accepted py (PDict kvs) i) \<and>
                    snd s2 (str i) =
                      (case accepted py (PDict kvs) i of None \<Rightarrow> snd s1 (str i)
                       | Some p \<Rightarrow> entry_after (fst s1) i (accepted py (PDict kvs) i))
               else filter_buffers (fst s2) i = filter_buffers (fst s1) i \<and>
                    snd s2 (str i) = snd s1 (str i))"
    by blast
  have res: "for_range (j # js) (apply_filters_body py (PDict kvs)) s = (None, s2)"
    using b l by simp
  have o: "only_buffers (fst s) (fst s2)"
    using o1 o2 by (rule only_buffers_trans)
  have "\<forall>i. i < 4 \<longrightarrow>
          (if i \<in> set (j # js)
           then filter_buffers (fst s2) i = buffer_after (fst s) i (accepted py (PDict kvs) i) \<and>
                snd s2 (str i) =
                  (case accepted py (PDict kvs) i of None \<Rightarrow> snd s (str i)
                   | Some p \<Rightarrow> entry_after (fst s) i (accepted py (PDict kvs) i))
           else filter_buffers (fst s2) i = filter_buffers (fst s) i \<and>
                snd s2 (str i) = snd s (str i))"
  proof (intro allI impI)
    fix i :: nat
    assume i4: "i < 4"
    show "if i \<in> set (j # js)
           then filter_buffers (fst s2) i = buffer_after (fst s) i (accepted py (PDict kvs) i) \<and>
                snd s2 (str i) =
                  (case accepted py (PDict kvs) i of None \<Rightarrow> snd s (str i)
                   | Some p \<Rightarrow> entry_after (fst s) i (accepted py (PDict kvs) i))
           else filter_buffers (fst s2) i = filter_buffers (fst s) i \<and>
                snd s2 (str i) = snd s (str i)"
    proof (cases "i = j")
      case True
      from all j4 jn bj ej show ?thesis unfolding True by simp
    next
      case False
      with oth i4 have same: "filter_buffers (fst s1) i = filter_buffers (fst s) i"
        "snd s1 (str i) = snd s (str i)" by auto
      from after_same[OF o1 same(1)] all i4 False same show ?thesis
        by (auto split: option.splits)
    qed
  qed
  with res o show ?case by blast
qed

lemma apply_filters_channel:
  assumes ch: "py_getitem data ''channels'' = Inr (PDict kvs)"
    and w: "windows_in_range st" and i: "i < 4"
    and no: "no_overflow py (PDict kvs)"
  shows "\<exists>fd st'. apply_filters py data st = (Inr fd, st') \<and>
           only_buffers st st' \<and>
           filter_buffers st' i = buffer_after st i (accepted py (PDict kvs) i) \<and>
           fd (str i) = entry_after st i (accepted py (PDict kvs) i)"
proof -
  define s0 where "s0 = (st, Map.empty :: filtered)"
  define js where "js = [0, 1, 2, 3 :: nat]"
  have w': "windows_in_range (fst s0)" using w by (simp add: s0_def)
  have js4: "\<forall>j \<in> set js. j < 4" and d: "distinct js" by (simp_all add: js_def)
  from i have mem: "i \<in> set js" by (auto simp: js_def)
  have nov: "\<forall>j \<in> set js. read_channel py (PDict kvs) j \<noteq> Inl OverflowError"
    using no by (simp add: no_overflow_def js_def)
  from filter_loop[OF w' js4 d nov] obtain s' where
    l: "for_range js (apply_filters_body py (PDict kvs)) s0 = (None, s')"
    and o: "only_buffers (fst s0) (fst s')"
    and all: "\<forall>i. i < 4 \<longrightarrow>
              (if i \<in> set js
               then filter_buffers (fst s') i = buffer_after (fst s0) i (accepted py (PDict kvs) i) \<and>
                    snd s' (str i) =
                      (case accepted py (PDict kvs) i of None \<Rightarrow> snd s0 (str i)
                       | Some p \<Rightarrow> entry_after (fst s0) i (accepted py (PDict kvs) i))
               else filter_buffers (fst s') i = filter_buffers (fst s0) i \<and>
                    snd s' (str i) = snd s0 (str i))"
    by blast
  from all i mem have
    "filter_buffers (fst s') i = buffer_after st i (accepted py (PDict kvs) i)"
    "snd s' (str i) = entry_after st i (accepted py (PDict kvs) i)"
    by (auto simp: entry_after_def s0_def split: option.splits)
  moreover have "apply_filters py data st = (Inr (snd s'), fst s')"
    using l ch by (simp add: apply_filters_def s0_def js_def)
  moreover have "only_buffers st (fst s')" using o by (simp add: s0_def)
  ultimately show ?thesis by blast
qed

lemma apply_filters_result:
  assumes ch: "py_getitem data ''channels'' = Inr (PDict kvs)"
    and w: "windows_in_range st" and i: "i < 4"
    and no: "no_overflow py (PDict kvs)"
  shows "raised (apply_filters py data st) = None"
    and "only_buffers st (snd (apply_filters py data st))"
    and "filter_buffers (snd (apply_filters py data st)) i =
           buffer_after st i (accepted py (PDict kvs) i)"
    and "returned_entry (apply_filters py data st) i = entry_after st i (accepted py (PDict kvs) i)"
proof -
  from apply_filters_channel[OF ch w i no] obtain fd st' where
    r: "apply_filters py data st = (Inr fd, st')" and o: "only_buffers st st'"
    and b: "filter_buffers st' i = buffer_after st i (accepted py (PDict kvs) i)"
    and e: "fd (str i) = entry_after st i (accepted py (PDict kvs) i)"
    by blast
  show "raised (apply_filters py data st) = None" by (simp add: r raised_def)
  show "only_buffers st (snd (apply_filters py data st))" using o by (simp add: r)
  show "filter_buffers (snd (apply_filters py data st)) i =
           buffer_after st i (accepted py (PDict kvs) i)" using b by (simp add: r)
  show "returned_entry (apply_filters py data st) i = entry_after st i (accepted py (PDict kvs) i)"
    using e by (simp add: r returned_entry_def)
qed

lemma accepted_dict:
  "map_of kvs (str i) \<noteq> None \<Longrightarrow> read_channel py (PDict kvs) i = Inr (v, r) \<Longrightarrow>
   accepted py (PDict kvs) i = Some (v, r)"
  "map_of kvs (str i) \<noteq> None \<Longrightarrow> read_channel py (PDict kvs) i = Inl e \<Longrightarrow>
   accepted py (PDict kvs) i = None"
  by (simp_all add: accepted_def)

lemma deque_append_bounded: "length buf \<le> n \<Longrightarrow> 0 < n \<Longrightarrow> length (deque_append n buf x) \<le> n"
  by (auto simp: deque_append_def)

lemma deque_append_last_n:
  assumes "length buf \<le> n" and "0 < n"
  shows "deque_append n buf x = last_n n (buf @ [x])"
proof (cases "length buf = n")
  case True
  with assms(2) have "buf \<noteq> []" by auto
  then have "drop (Suc 0) (buf @ [x]) = tl buf @ [x]" by (cases buf) simp_all
  with True show ?thesis by (simp add: deque_append_def last_n_def)
next
  case False
  with assms(1) show ?thesis by (simp add: deque_append_def last_n_def)
qed


lemma caught_conversion_skips_channel:
  assumes "py_getitem data ''channels'' = Inr (PDict kvs)" and "windows_in_range st"
    and "i < 4" and "j < 4" and "no_overflow py (PDict kvs)"
    and "map_of kvs (str i) \<noteq> None" and "read_channel py (PDict kvs) i = Inl e"
    and "map_of kvs (str j) \<noteq> None" and "read_channel py (PDict kvs) j = Inr (v, r)"
  shows "raised (apply_filters py data st) = None \<and>
         returned_entry (apply_filters py data st) i = None \<and>
         filter_buffers (snd (apply_filters py data st)) i = filter_buffers st i \<and>
         filter_buffers (snd (apply_filters py data st)) j =
           deque_append 50 (filter_buffers st j) v \<and>
         returned_entry (apply_filters py data st) j =
           Some \<lparr>raw = r, voltage = v,
                 filtered_voltage =
                   (if filter_enabled st j
                    then mean_last (min (nat (filter_window st j))
                                        (length (deque_append 50 (filter_buffers st j) v)))
                           (deque_append 50 (filter_buffers st j) v)
                    else v)\<rparr>"
proof -
  have n: "nat (min (filter_window st j) (int (length (deque_append 50 (filter_buffers st j) v)))) =
        min (nat (filter_window st j)) (length (deque_append 50 (filter_buffers st j) v))"
    by linarith
  show ?thesis
    using apply_filters_result[OF assms(1,2,3,5)] apply_filters_result[OF assms(1,2,4,5)]
      accepted_dict(2)[OF assms(6,7)] accepted_dict(1)[OF assms(8,9)] n
    by (simp add: entry_after_def buffer_after_def)
qed

section \<open>The filter engine\<close>

text \<open>
  C7. For a channel whose filter is disabled and whose reading converts to the voltage \<open>v\<close>,
  in a frame none of whose conversions overflows, the entry returned by \<^verbatim>\<open>apply_filters\<close>
  has the filtered voltage equal to \<open>v\<close>, and the history of the channel becomes the last 50
  values of the old history with \<open>v\<close> appended: the old history followed by \<open>v\<close> while it
  holds fewer than 50 values, and all but its oldest value followed by \<open>v\<close> once it is full.
\<close>

theorem filter_disabled_passthrough:
  assumes "py_getitem data ''channels'' = Inr (PDict kvs)" and "windows_in_range st" and "i < 4"
    and "no_overflow py (PDict kvs)"
    and "\<not> filter_enabled st i"
    and "map_of kvs (str i) \<noteq> None" and "read_channel py (PDict kvs) i = Inr (v, r)"
    and "length (filter_buffers st i) \<le> 50"
  shows "raised (apply_filters py data st) = None \<and>
         returned_entry (apply_filters py data st) i =
           Some \<lparr>raw = r, voltage = v, filtered_voltage = v\<rparr> \<and>
         filter_buffers (snd (apply_filters py data st)) i = last_n 50 (filter_buffers st i @ [v]) \<and>
         (length (filter_buffers st i) < 50 \<longrightarrow>
            filter_buffers (snd (apply_filters py data st)) i = filter_buffers st i @ [v]) \<and>
         (length (filter_buffers st i) = 50 \<longrightarrow>
            filter_buffers (snd (apply_filters py data st)) i = tl (filter_buffers st i) @ [v]) \<and>
         length (filter_buffers (snd (apply_filters py data st)) i) \<le> 50"
proof -
  have l: "deque_append 50 (filter_buffers st i) v = last_n 50 (filter_buffers st i @ [v])"
    using assms(8) by (simp add: deque_append_last_n)
  have b: "filter_buffers (snd (apply_filters py data st)) i =
      deque_append 50 (filter_buffers st i) v"
    using apply_filters_result(3)[OF assms(1,2,3,4)] accepted_dict(1)[OF assms(6,7)]
    by (simp add: buffer_after_def)
  have e: "returned_entry (apply_filters py data st) i =
      Some \<lparr>raw = r, voltage = v, filtered_voltage = v\<rparr>"
    using apply_filters_result(4)[OF assms(1,2,3,4)] accepted_dict(1)[OF assms(6,7)] assms(5)
    by (simp add: entry_after_def)
  have len: "length (deque_append 50 (filter_buffers st i) v) \<le> 50"
    using assms(8) by (simp add: deque_append_bounded)
  have lt: "length (filter_buffers st i) < 50 \<longrightarrow>
      deque_append 50 (filter_buffers st i) v = filter_buffers st i @ [v]"
    and eq: "length (filter_buffers st i) = 50 \<longrightarrow>
      deque_append 50 (filter_buffers st i) v = tl (filter_buffers st i) @ [v]"
    by (simp_all add: deque_append_def)
  show ?thesis
    unfolding b e
    using apply_filters_result(1)[OF assms(1,2,3,4)] l lt eq len by simp
qed

theorem filter_disabled_passthrough_witness:
  "py_getitem (frame (PInt 7) (PStr ''1.5'')) ''channels'' =
     Inr (PDict [(''0'', PDict [(''raw'', PInt 7), (''voltage'', PStr ''1.5'')])]) \<and>
   windows_in_range app_init \<and> windows_in_range full_history \<and> (0::nat) < 4 \<and>
   no_overflow sample_conv (PDict [(''0'', PDict [(''raw'', PInt 7), (''voltage'', PStr ''1.5'')])]) \<and>
   \<not> filter_enabled app_init 0 \<and> \<not> filter_enabled full_history 0 \<and>
   map_of [(''0'', PDict [(''raw'', PInt 7), (''voltage'', PStr ''1.5'')])] (str 0) \<noteq> None \<and>
   read_channel sample_conv (PDict [(''0'', PDict [(''raw'', PInt 7), (''voltage'', PStr ''1.5'')])]) 0 =
     Inr (Fin (3 / 2), 7) \<and>
   length (filter_buffers app_init 0) < 50 \<and> length (filter_buffers full_history 0) = 50 \<and>
   raised (apply_filters sample_conv (frame (PInt 7) (PStr ''1.5'')) app_init) = None \<and>
   returned_entry (apply_filters sample_conv (frame (PInt 7) (PStr ''1.5'')) app_init) 0 =
     Some \<lparr>raw = 7, voltage = Fin (3 / 2), filtered_voltage = Fin (3 / 2)\<rparr> \<and>
   filter_buffers (snd (apply_filters sample_conv (frame (PInt 7) (PStr ''1.5'')) app_init)) 0 =
     [Fin (3 / 2)] \<and>
   filter_buffers (snd (apply_filters sample_conv (frame (PInt 7) (PStr ''1.5'')) full_history)) 0 =
     replicate 49 (Fin 1) @ [Fin (3 / 2)]"
proof -
  let ?kvs = "[(''0'', PDict [(''raw'', PInt 7), (''voltage'', PStr ''1.5'')])]"
  have h: "py_getitem (frame (PInt 7) (PStr ''1.5'')) ''channels'' = Inr (PDict ?kvs)"
    "windows_in_range app_init" "windows_in_range full_history" "(0::nat) < 4"
    "no_overflow sample_conv (PDict ?kvs)"
    "\<not> filter_enabled app_init 0" "\<not> filter_enabled full_history 0"
    "map_of ?kvs (str 0) \<noteq> None"
    "read_channel sample_conv (PDict ?kvs) 0 = Inr (Fin (3 / 2), 7)"
    "length (filter_buffers app_init 0) < 50" "length (filter_buffers full_history 0) = 50"
    "length (filter_buffers app_init 0) \<le> 50" "length (filter_buffers full_history 0) \<le> 50"
    "filter_buffers app_init 0 = []" "filter_buffers full_history 0 = replicate 50 (Fin 1)"
    by (simp_all add: frame_def windows_in_range_def no_overflow_def app_init_def full_history_def
        str_channel read_channel_def sample_conv_def)
  show ?thesis
    using filter_disabled_passthrough[OF h(1) h(2) h(4) h(5) h(6) h(8) h(9) h(12)]
      filter_disabled_passthrough[OF h(1) h(3) h(4) h(5) h(7) h(8) h(9) h(13)] h
    by (simp add: last_n_def)
qed



text \<open>
  C10 fails on the code. The \<^verbatim>\<open>except\<close> clause of line 976 names \<^verbatim>\<open>ValueError\<close>,
  \<^verbatim>\<open>TypeError\<close> and \<^verbatim>\<open>KeyError\<close>, but a raw value of infinity makes \<^verbatim>\<open>int\<close> raise
  \<^verbatim>\<open>OverflowError\<close>, and so does \<^verbatim>\<open>float\<close> on an integer voltage beyond the range of a
  double: on both frames below \<^verbatim>\<open>apply_filters\<close> raises instead of omitting channel 0, and
  channel 1 of the same frame, whose reading is numeric, gets no entry and no history.
\<close>

theorem overflow_escapes_apply_filters:
  "raised (apply_filters sample_conv infinite_raw_frame app_init) = Some OverflowError \<and>
   returned_entry (apply_filters sample_conv infinite_raw_frame app_init) 1 = None \<and>
   filter_buffers (snd (apply_filters sample_conv infinite_raw_frame app_init)) 1 = [] \<and>
   raised (apply_filters sample_conv huge_voltage_frame app_init) = Some OverflowError \<and>
   returned_entry (apply_filters sample_conv huge_voltage_frame app_init) 1 = None \<and>
   filter_buffers (snd (apply_filters sample_conv huge_voltage_frame app_init)) 1 = []"
  by (simp add: infinite_raw_frame_def huge_voltage_frame_def frame2_def apply_filters_def
      apply_filters_body_def read_channel_def raised_def returned_entry_def double_limit_def
      str_channel app_init_def)

section \<open>The sample scheduler\<close>

text \<open>
  C9, as the code has it. A pass whose clock reading is before \<^verbatim>\<open>next_sample_time\<close> sleeps
  for the remaining time and fetches nothing. Any other pass makes one fetch attempt and, whether
  it succeeds or fails, adds one interval to \<^verbatim>\<open>next_sample_time\<close>; when the sum is strictly
  before the clock reading of the pass it is replaced by that reading plus one interval, and
  when it equals the reading or is later it is kept. With a non-negative interval the new
  \<^verbatim>\<open>next_sample_time\<close> is never before the clock reading of the pass.
\<close>

theorem scheduler_pass:
  "(tick_time t < next_sample_time \<longrightarrow>
      loop_pass py sample_interval t (next_sample_time, st) =
        (Sleep (next_sample_time - tick_time t), (next_sample_time, st))) \<and>
   (\<not> tick_time t < next_sample_time \<longrightarrow>
      fst (loop_pass py sample_interval t (next_sample_time, st)) = Fetch \<and>
      snd (snd (loop_pass py sample_interval t (next_sample_time, st))) = try_fetch py t st \<and>
      fst (snd (loop_pass py sample_interval t (next_sample_time, st))) =
        (if next_sample_time + sample_interval < tick_time t
         then tick_time t + sample_interval
         else next_sample_time + sample_interval) \<and>
      (0 \<le> sample_interval \<longrightarrow>
         tick_time t \<le> fst (snd (loop_pass py sample_interval t (next_sample_time, st)))))"
  by (simp add: loop_pass_def Let_def)

theorem scheduler_pass_witness:
  "tick_time (failed_tick 1) < 3 \<and>
   loop_pass sample_conv (1 / 5) (failed_tick 1) (3, app_init) = (Sleep 2, (3, app_init)) \<and>
   \<not> tick_time (failed_tick 10) < 3 \<and> (0::real) \<le> 1 / 5 \<and>
   fst (loop_pass sample_conv (1 / 5) (failed_tick 10) (3, app_init)) = Fetch \<and>
   fst (snd (loop_pass sample_conv (1 / 5) (failed_tick 10) (3, app_init))) = 10 + 1 / 5 \<and>
   error_count (snd (snd (loop_pass sample_conv (1 / 5) (failed_tick 10) (3, app_init)))) = 1"
  using scheduler_pass[of "failed_tick 1" 3 sample_conv "1 / 5" app_init]
    scheduler_pass[of "failed_tick 10" 3 sample_conv "1 / 5" app_init]
  by (simp add: failed_tick_def try_fetch_def app_init_def)

text \<open>
  The claim as written fails at equality: with \<^verbatim>\<open>next_sample_time = 0\<close>, interval 1 and
  clock reading 1, the advanced value 1 is not in the future of the reading, and it is kept
  rather than replaced by 2.
\<close>

theorem scheduler_resync_counterexample:
  "\<not> (0 + 1 > tick_time (failed_tick 1)) \<and>
   fst (snd (loop_pass sample_conv 1 (failed_tick 1) (0, app_init))) = 1 \<and>
   fst (snd (loop_pass sample_conv 1 (failed_tick 1) (0, app_init))) \<noteq> tick_time (failed_tick 1) + 1"
  by (simp add: loop_pass_def Let_def failed_tick_def)

section \<open>What each step of the dispatcher may write\<close>

lemma for_range_preserves:
  assumes step: "\<And>i s. R s (snd (body i s))"
    and refl: "\<And>s. R s s"
    and trans: "\<And>a b c. R a b \<Longrightarrow> R b c \<Longrightarrow> R a c"
  shows "R s (snd (for_range js body s))"
proof (induction js arbitrary: s)
  case Nil
  show ?case by (simp add: refl)
next
  case (Cons j js)
  obtain r s1 where b: "body j s = (r, s1)" by (cases "body j s")
  have s1: "R s s1" using step[of s j] b by simp
  show ?case
  proof (cases r)
    case None
    with b Cons.IH[of s1] s1 show ?thesis by (auto intro: trans)
  next
    case (Some e)
    with b s1 show ?thesis by simp
  qed
qed

lemma for_range_no_exception:
  assumes "\<And>i s. i \<in> set js \<Longrightarrow> fst (body i s) = None"
  shows "fst (for_range js body s) = None"
  using assms
proof (induction js arbitrary: s)
  case Nil
  show ?case by simp
next
  case (Cons j js)
  obtain r s1 where b: "body j s = (r, s1)" by (cases "body j s")
  from Cons.prems[of j s] b have "r = None" by simp
  with b Cons.IH[of s1] Cons.prems show ?case by simp
qed

lemma filter_body_only_buffers:
  "only_buffers (fst s) (fst (snd (apply_filters_body py channels i s)))"
  by (auto simp: apply_filters_body_def only_buffers_def Let_def
      split: sum.splits bool.splits prod.splits)

lemma apply_filters_only_buffers: "only_buffers st (snd (apply_filters py data st))"
proof (cases "py_getitem data ''channels''")
  case (Inl e)
  then show ?thesis by (simp add: apply_filters_def only_buffers_refl)
next
  case (Inr channels)
  have "only_buffers (fst (st, Map.empty :: filtered))
          (fst (snd (for_range [0, 1, 2, 3] (apply_filters_body py channels) (st, Map.empty))))"
  proof (rule for_range_preserves[where R = "\<lambda>a b. only_buffers (fst a) (fst b)"])
    fix i s
    show "only_buffers (fst s) (fst (snd (apply_filters_body py channels i s)))"
      by (rule filter_body_only_buffers)
  next
    fix s :: "app \<times> filtered"
    show "only_buffers (fst s) (fst s)" by (rule only_buffers_refl)
  next
    fix a b c :: "app \<times> filtered"
    assume "only_buffers (fst a) (fst b)" and "only_buffers (fst b) (fst c)"
    then show "only_buffers (fst a) (fst c)" by (rule only_buffers_trans)
  qed
  with Inr show ?thesis
    by (auto simp: apply_filters_def split: prod.splits option.splits)
qed

lemma send_message_sent: "erase_sent (snd (send_message osc m st)) = erase_sent st"
  by (simp add: send_message_def erase_sent_def split: option.splits)

lemma send_channel_sent: "erase_sent (snd (send_channel outp osc i st)) = erase_sent st"
  by (auto simp: send_channel_def send_message_def erase_sent_def
      split: output_data.splits option.splits sum.splits bool.splits prod.splits)

lemma send_loop_sent:
  "erase_sent (snd (for_range js (send_channel outp osc) st)) = erase_sent st"
  by (rule for_range_preserves[where R = "\<lambda>a b. erase_sent b = erase_sent a"])
    (simp_all add: send_channel_sent)

lemma check_body_osc: "erase_osc (snd (check_thresholds_body data osc i st)) = erase_osc st"
  by (auto simp: check_thresholds_body_def send_message_def erase_osc_def Let_def
      split: option.splits level.splits prod.splits)

lemma check_thresholds_osc: "erase_osc (snd (check_thresholds data osc st)) = erase_osc st"
  unfolding check_thresholds_def
  by (rule for_range_preserves[where R = "\<lambda>a b. erase_osc b = erase_osc a"])
    (simp_all add: check_body_osc)

lemma erase_osc_alt: "erase_osc x = (erase_sent x)\<lparr>threshold_states := (\<lambda>i. None)\<rparr>"
  by (simp add: erase_osc_def erase_sent_def)

lemma erase_sent_osc: "erase_sent b = erase_sent a \<Longrightarrow> erase_osc b = erase_osc a"
  by (simp add: erase_osc_alt)

lemma send_osc_osc: "erase_osc (snd (send_osc outp fd osc st)) = erase_osc st"
proof -
  obtain r st1 where l: "for_range [0, 1, 2, 3] (send_channel outp osc) st = (r, st1)"
    by (cases "for_range [0, 1, 2, 3] (send_channel outp osc) st")
  have "erase_sent (snd (for_range [0, 1, 2, 3] (send_channel outp osc) st)) = erase_sent st"
    by (rule send_loop_sent)
  then have "erase_sent st1 = erase_sent st" unfolding l by simp
  then have s: "erase_osc st1 = erase_osc st" by (rule erase_sent_osc)
  show ?thesis
  proof (cases r)
    case None
    have "send_osc outp fd osc st = check_thresholds fd osc st1"
      unfolding send_osc_def l None by simp
    then have "erase_osc (snd (send_osc outp fd osc st)) = erase_osc st1"
      by (simp only: check_thresholds_osc)
    then show ?thesis using s by (rule trans)
  next
    case (Some e)
    have "send_osc outp fd osc st = (Some e, st1)"
      unfolding send_osc_def l Some by simp
    with s show ?thesis by simp
  qed
qed

lemma log_to_csv_log: "erase_log (snd (log_to_csv w data outp st)) = erase_log st"
  by (auto simp: log_to_csv_def erase_log_def Let_def
      split: option.splits sum.splits prod.splits)

lemma erase_osc_fields:
  assumes "erase_osc st' = erase_osc st"
  shows "logging_active st' = logging_active st" and "streaming_active st' = streaming_active st"
    and "csv_writer st' = csv_writer st" and "csv_row_count st' = csv_row_count st"
    and "sample_count st' = sample_count st" and "filter_buffers st' = filter_buffers st"
    and "filter_window st' = filter_window st" and "filter_enabled st' = filter_enabled st"
    and "thresh_enabled st' = thresh_enabled st" and "thresh_high st' = thresh_high st"
    and "thresh_low st' = thresh_low st" and "filtered_radio st' = filtered_radio st"
    and "error_count st' = error_count st" and "emitted st' = emitted st"
  using assms[THEN arg_cong, of logging_active] assms[THEN arg_cong, of streaming_active]
    assms[THEN arg_cong, of csv_writer] assms[THEN arg_cong, of csv_row_count]
    assms[THEN arg_cong, of sample_count] assms[THEN arg_cong, of filter_buffers]
    assms[THEN arg_cong, of filter_window] assms[THEN arg_cong, of filter_enabled]
    assms[THEN arg_cong, of thresh_enabled] assms[THEN arg_cong, of thresh_high]
    assms[THEN arg_cong, of thresh_low] assms[THEN arg_cong, of filtered_radio]
    assms[THEN arg_cong, of error_count] assms[THEN arg_cong, of emitted]
  by (simp_all add: erase_osc_def)

lemma erase_sent_fields:
  assumes "erase_sent st' = erase_sent st"
  shows "threshold_states st' = threshold_states st"
  using assms[THEN arg_cong, of threshold_states] by (simp add: erase_sent_def)

lemma erase_log_fields:
  assumes "erase_log st' = erase_log st"
  shows "logging_active st' = logging_active st" and "streaming_active st' = streaming_active st"
    and "osc_sent st' = osc_sent st" and "threshold_states st' = threshold_states st"
    and "sample_count st' = sample_count st" and "filter_buffers st' = filter_buffers st"
    and "filter_window st' = filter_window st" and "filter_enabled st' = filter_enabled st"
    and "thresh_enabled st' = thresh_enabled st" and "thresh_high st' = thresh_high st"
    and "thresh_low st' = thresh_low st" and "filtered_radio st' = filtered_radio st"
    and "error_count st' = error_count st" and "emitted st' = emitted st"
  using assms[THEN arg_cong, of logging_active] assms[THEN arg_cong, of streaming_active]
    assms[THEN arg_cong, of osc_sent] assms[THEN arg_cong, of threshold_states]
    assms[THEN arg_cong, of sample_count] assms[THEN arg_cong, of filter_buffers]
    assms[THEN arg_cong, of filter_window] assms[THEN arg_cong, of filter_enabled]
    assms[THEN arg_cong, of thresh_enabled] assms[THEN arg_cong, of thresh_high]
    assms[THEN arg_cong, of thresh_low] assms[THEN arg_cong, of filtered_radio]
    assms[THEN arg_cong, of error_count] assms[THEN arg_cong, of emitted]
  by (simp_all add: erase_log_def)

subsection \<open>The CSV block\<close>

lemma log_to_csv_fails:
  assumes "csv_writer st \<noteq> None" and "writerow_raises w \<noteq> None"
  shows "fst (log_to_csv w data outp st) \<noteq> None" and "snd (log_to_csv w data outp st) = st"
  using assms
  by (auto simp: log_to_csv_def split: option.splits sum.splits prod.splits)

lemma csv_cells_filtered: "fst (csv_cells (Filtered fd) i row) = None"
  by (simp add: csv_cells_def split: option.splits)

lemma csv_cells_raw:
  assumes "valid_channels channels" and "i \<in> set [0, 1, 2, 3]"
  shows "fst (csv_cells (RawChannels channels) i row) = None"
proof -
  from assms(1) obtain kvs where c: "channels = PDict kvs"
    by (cases channels) (simp_all add: valid_channels_def)
  show ?thesis
  proof (cases "map_of kvs (str i)")
    case None
    then show ?thesis by (simp add: csv_cells_def c)
  next
    case (Some x)
    with assms c have "valid_entry x" by (auto simp: valid_channels_def)
    then obtain es where x: "x = PDict es" and "map_of es ''raw'' \<noteq> None"
      and "map_of es ''voltage'' \<noteq> None"
      by (cases x) (simp_all add: valid_entry_def)
    with Some show ?thesis by (auto simp: csv_cells_def c)
  qed
qed

lemma log_to_csv_ok:
  assumes wr: "csv_writer st = Some rows"
    and ok: "writerow_raises w = None" "flush_raises w = None"
    and ts: "py_get data ''timestamp'' (PInt 0) = Inr t"
    and cells: "\<And>i row. i \<in> set [0, 1, 2, 3] \<Longrightarrow> fst (csv_cells outp i row) = None"
  shows "fst (log_to_csv w data outp st) = None"
    and "rows_written (snd (log_to_csv w data outp st)) = length rows + 1"
    and "csv_row_count (snd (log_to_csv w data outp st)) = csv_row_count st + 1"
proof -
  obtain r row where l: "for_range [0, 1, 2, 3] (csv_cells outp) [PStr (now_iso w), t] = (r, row)"
    by (cases "for_range [0, 1, 2, 3] (csv_cells outp) [PStr (now_iso w), t]")
  have "fst (for_range [0, 1, 2, 3] (csv_cells outp) [PStr (now_iso w), t]) = None"
    by (rule for_range_no_exception) (rule cells)
  with l have r: "r = None" by simp
  show "fst (log_to_csv w data outp st) = None"
    using wr ok ts l r by (simp add: log_to_csv_def Let_def)
  show "rows_written (snd (log_to_csv w data outp st)) = length rows + 1"
    using wr ok ts l r by (simp add: log_to_csv_def Let_def rows_written_def)
  show "csv_row_count (snd (log_to_csv w data outp st)) = csv_row_count st + 1"
    using wr ok ts l r by (simp add: log_to_csv_def Let_def)
qed

lemma valid_sample_shape:
  assumes "valid_sample py data"
  shows "\<exists>kvs. py_getitem data ''channels'' = Inr (PDict kvs) \<and> valid_channels (PDict kvs) \<and>
           no_overflow py (PDict kvs)"
    and "\<exists>t. py_get data ''timestamp'' (PInt 0) = Inr t"
proof -
  from assms obtain channels where g: "py_getitem data ''channels'' = Inr channels"
    and v: "valid_channels channels" and n: "no_overflow py channels"
    by (cases "py_getitem data ''channels''") (simp_all add: valid_sample_def)
  from v obtain kvs where "channels = PDict kvs"
    by (cases channels) (simp_all add: valid_channels_def)
  with g v n show "\<exists>kvs. py_getitem data ''channels'' = Inr (PDict kvs) \<and>
      valid_channels (PDict kvs) \<and> no_overflow py (PDict kvs)"
    by simp
  from g show "\<exists>t. py_get data ''timestamp'' (PInt 0) = Inr t"
    by (cases data) (simp_all split: option.splits)
qed

subsection \<open>One dispatch cycle with a working signal and a working file\<close>

lemma process_data_logs:
  assumes la: "logging_active st" and wr: "csv_writer st = Some rows"
    and em: "emit_raises w = None" and wo: "writerow_raises w = None" and fl: "flush_raises w = None"
    and vs: "valid_sample py data" and win: "windows_in_range st"
  shows "rows_written (snd (process_data py w data osc st)) = length rows + 1"
    and "csv_row_count (snd (process_data py w data osc st)) = csv_row_count st + 1"
    and "logging_active (snd (process_data py w data osc st))"
    and "csv_writer (snd (process_data py w data osc st)) \<noteq> None"
    and "windows_in_range (snd (process_data py w data osc st))"
    and "error_count (snd (process_data py w data osc st)) = error_count st"
proof -
  from valid_sample_shape[OF vs] obtain kvs t where
    ch: "py_getitem data ''channels'' = Inr (PDict kvs)" and vc: "valid_channels (PDict kvs)"
    and no: "no_overflow py (PDict kvs)"
    and ts: "py_get data ''timestamp'' (PInt 0) = Inr t"
    by blast
  have z: "(0::nat) < 4" by simp
  from apply_filters_channel[OF ch win z no] obtain fd st1 where
    af: "apply_filters py data st = (Inr fd, st1)" and o: "only_buffers st st1"
    by blast
  note f1 = only_buffers_fields[OF o]
  define st2 where "st2 = st1\<lparr>emitted := emitted st1 @ [data]\<rparr>"
  define outp where "outp = (if filtered_radio st2 then Filtered fd else RawChannels (PDict kvs))"
  have la2: "logging_active st2" and wr2: "csv_writer st2 = Some rows"
    and rc2: "csv_row_count st2 = csv_row_count st"
    and fw2: "filter_window st2 = filter_window st"
    and ec2: "error_count st2 = error_count st"
    using f1 la wr by (simp_all add: st2_def)
  have cells: "\<And>i row. i \<in> set [0, 1, 2, 3] \<Longrightarrow> fst (csv_cells outp i row) = None"
    using csv_cells_raw[OF vc] by (simp add: outp_def csv_cells_filtered)
  obtain r3 st3 where lg: "log_to_csv w data outp st2 = (r3, st3)"
    by (cases "log_to_csv w data outp st2")
  from log_to_csv_ok[OF wr2 wo fl ts cells] lg
  have r3: "r3 = None" and rw3: "rows_written st3 = length rows + 1"
    and rc3: "csv_row_count st3 = csv_row_count st2 + 1"
    by simp_all
  have e3: "erase_log st3 = erase_log st2"
    using log_to_csv_log[of w data outp st2] lg by simp
  note f3 = erase_log_fields[OF e3]
  obtain r4 st4 where so:
    "(if streaming_active st3 then send_osc outp fd osc st3 else (None, st3)) = (r4, st4)"
    by (cases "if streaming_active st3 then send_osc outp fd osc st3 else (None, st3)")
  have e4: "erase_osc st4 = erase_osc st3"
    using so send_osc_osc[of outp fd osc st3]
    by (cases "streaming_active st3") auto
  note f4 = erase_osc_fields[OF e4]
  have pd: "process_data py w data osc st =
      (case r4 of Some e \<Rightarrow> (Some e, st4)
       | None \<Rightarrow> (None, st4\<lparr>sample_count := sample_count st4 + 1\<rparr>))"
  proof (cases "filtered_radio st1")
    case True
    then have "outp = Filtered fd" by (simp add: outp_def st2_def)
    with af em ch la2 wr2 lg r3 so True show ?thesis
      by (auto simp: process_data_def Let_def st2_def[symmetric] split: option.splits if_splits)
  next
    case False
    then have "outp = RawChannels (PDict kvs)" by (simp add: outp_def st2_def)
    with af em ch la2 wr2 lg r3 so False show ?thesis
      by (auto simp: process_data_def Let_def st2_def[symmetric] split: option.splits if_splits)
  qed
  have final: "rows_written (snd (process_data py w data osc st)) = rows_written st4"
    "csv_row_count (snd (process_data py w data osc st)) = csv_row_count st4"
    "logging_active (snd (process_data py w data osc st)) = logging_active st4"
    "csv_writer (snd (process_data py w data osc st)) = csv_writer st4"
    "filter_window (snd (process_data py w data osc st)) = filter_window st4"
    "error_count (snd (process_data py w data osc st)) = error_count st4"
    unfolding pd by (cases r4; simp add: rows_written_def)+
  have w4: "csv_writer st4 = csv_writer st3" by (rule f4(3))
  show "rows_written (snd (process_data py w data osc st)) = length rows + 1"
    using final(1) w4 rw3 by (simp add: rows_written_def)
  show "csv_row_count (snd (process_data py w data osc st)) = csv_row_count st + 1"
    using final(2) f4(4) rc3 rc2 by simp
  show "logging_active (snd (process_data py w data osc st))"
    using final(3) f4(1) f3(1) la2 by simp
  show "csv_writer (snd (process_data py w data osc st)) \<noteq> None"
    using final(4) w4 rw3 by (auto simp: rows_written_def split: option.splits)
  show "windows_in_range (snd (process_data py w data osc st))"
    using final(5) f4(7) f3(7) fw2 win by (simp add: windows_in_range_def)
  show "error_count (snd (process_data py w data osc st)) = error_count st"
    using final(6) f4(13) f3(13) ec2 by simp
qed

lemma try_fetch_logs:
  assumes la: "logging_active st" and wr: "csv_writer st \<noteq> None" and win: "windows_in_range st"
    and t: "log_sink_works py t"
  shows "rows_written (try_fetch py t st) = rows_written st + 1"
    and "csv_row_count (try_fetch py t st) = csv_row_count st + 1"
    and "logging_active (try_fetch py t st)"
    and "csv_writer (try_fetch py t st) \<noteq> None"
    and "windows_in_range (try_fetch py t st)"
proof -
  from wr obtain rows where rows: "csv_writer st = Some rows" by auto
  from t obtain data where f: "tick_fetch t = Inr data" and vs: "valid_sample py data"
    and em: "emit_raises (tick_io t) = None" and wo: "writerow_raises (tick_io t) = None"
    and fl: "flush_raises (tick_io t) = None"
    by (cases "tick_fetch t") (simp_all add: log_sink_works_def)
  note p = process_data_logs[OF la rows em wo fl vs win, of "tick_osc t"]
  obtain r st1 where pd: "process_data py (tick_io t) data (tick_osc t) st = (r, st1)"
    by (cases "process_data py (tick_io t) data (tick_osc t) st")
  have tf: "try_fetch py t st =
      (case r of Some e \<Rightarrow> st1\<lparr>error_count := error_count st1 + 1\<rparr> | None \<Rightarrow> st1)"
    by (simp add: try_fetch_def f pd split: option.splits)
  have same: "csv_writer (try_fetch py t st) = csv_writer st1"
    "csv_row_count (try_fetch py t st) = csv_row_count st1"
    "logging_active (try_fetch py t st) = logging_active st1"
    "filter_window (try_fetch py t st) = filter_window st1"
    unfolding tf by (cases r; simp)+
  show "rows_written (try_fetch py t st) = rows_written st + 1"
    using p(1) same(1) rows pd by (simp add: rows_written_def)
  show "csv_row_count (try_fetch py t st) = csv_row_count st + 1"
    using p(2) same(2) pd by simp
  show "logging_active (try_fetch py t st)"
    using p(3) same(3) pd by simp
  show "csv_writer (try_fetch py t st) \<noteq> None"
    using p(4) same(1) pd by simp
  show "windows_in_range (try_fetch py t st)"
    using p(5) same(4) pd by (simp add: windows_in_range_def)
qed

section \<open>The dispatcher\<close>

subsection \<open>The shape of every dispatch cycle\<close>

lemma process_data_after_emit:
  assumes af: "apply_filters py data st = (Inr fd, st1)" and em: "emit_raises w = None"
    and st2: "st2 = st1\<lparr>emitted := emitted st1 @ [data]\<rparr>"
    and sel: "sel = (if filtered_radio st2 then Inr (Filtered fd)
                     else map_sum id RawChannels (py_getitem data ''channels''))"
  shows "process_data py w data osc st =
          (case sel of
             Inl e \<Rightarrow> (Some e, st2)
           | Inr outp \<Rightarrow>
               (case (if logging_active st2 \<and> csv_writer st2 \<noteq> None
                      then log_to_csv w data outp st2 else (None, st2)) of
                  (Some e, st3) \<Rightarrow> (Some e, st3)
                | (None, st3) \<Rightarrow>
                    (case (if streaming_active st3
                           then send_osc outp fd osc st3 else (None, st3)) of
                       (Some e, st4) \<Rightarrow> (Some e, st4)
                     | (None, st4) \<Rightarrow> (None, st4\<lparr>sample_count := sample_count st4 + 1\<rparr>))))"
  unfolding process_data_def af sel st2
  by (simp add: em Let_def)

lemma process_data_outcome:
  "\<exists>r1 st1. apply_filters py data st = (r1, st1) \<and> only_buffers st st1 \<and>
     (case r1 of
        Inl e \<Rightarrow> process_data py w data osc st = (Some e, st1)
      | Inr fd \<Rightarrow>
          (case emit_raises w of
             Some e \<Rightarrow> process_data py w data osc st = (Some e, st1)
           | None \<Rightarrow>
               (\<exists>st3 st4 r.
                  erase_log st3 = erase_log (st1\<lparr>emitted := emitted st1 @ [data]\<rparr>) \<and>
                  erase_osc st4 = erase_osc st3 \<and>
                  (\<not> streaming_active st3 \<longrightarrow> st4 = st3) \<and>
                  process_data py w data osc st =
                    (r, if r = None then st4\<lparr>sample_count := sample_count st4 + 1\<rparr> else st4))))"
proof -
  obtain r1 st1 where af: "apply_filters py data st = (r1, st1)"
    by (cases "apply_filters py data st")
  have o: "only_buffers st st1"
    using apply_filters_only_buffers[of st py data] af by simp
  show ?thesis
  proof (cases r1)
    case (Inl e)
    with af o show ?thesis by (simp add: process_data_def)
  next
    case (Inr fd)
    show ?thesis
    proof (cases "emit_raises w")
      case (Some e)
      with af o Inr show ?thesis by (simp add: process_data_def)
    next
      case None
      define st2 where "st2 = st1\<lparr>emitted := emitted st1 @ [data]\<rparr>"
      define sel where "sel = (if filtered_radio st2 then Inr (Filtered fd)
                               else map_sum id RawChannels (py_getitem data ''channels''))"
      note pd0 = process_data_after_emit[OF af[unfolded Inr] None st2_def sel_def, of osc]
      have "\<exists>st3 st4 r.
                  erase_log st3 = erase_log st2 \<and>
                  erase_osc st4 = erase_osc st3 \<and>
                  (\<not> streaming_active st3 \<longrightarrow> st4 = st3) \<and>
                  process_data py w data osc st =
                    (r, if r = None then st4\<lparr>sample_count := sample_count st4 + 1\<rparr> else st4)"
      proof (cases sel)
        case (Inl e)
        then have "process_data py w data osc st = (Some e, st2)" by (simp add: pd0)
        then show ?thesis by (intro exI[of _ st2] exI[of _ "Some e"]) simp
      next
        case (Inr outp)
        obtain r3 st3 where lg:
          "(if logging_active st2 \<and> csv_writer st2 \<noteq> None
            then log_to_csv w data outp st2 else (None, st2)) = (r3, st3)"
          by (cases "if logging_active st2 \<and> csv_writer st2 \<noteq> None
                     then log_to_csv w data outp st2 else (None, st2)")
        have e3: "erase_log st3 = erase_log st2"
          using lg log_to_csv_log[of w data outp st2]
          by (cases "logging_active st2 \<and> csv_writer st2 \<noteq> None") auto
        show ?thesis
        proof (cases r3)
          case (Some e)
          have "process_data py w data osc st = (Some e, st3)"
            unfolding pd0 Inr by (simp only: sum.case lg Some prod.case option.case)
          with e3 show ?thesis by (intro exI[of _ st3] exI[of _ "Some e"]) simp
        next
          case None
          obtain r4 st4 where so:
            "(if streaming_active st3 then send_osc outp fd osc st3 else (None, st3)) = (r4, st4)"
            by (cases "if streaming_active st3 then send_osc outp fd osc st3 else (None, st3)")
          have e4: "erase_osc st4 = erase_osc st3"
            using so send_osc_osc[of outp fd osc st3]
            by (cases "streaming_active st3") auto
          have ns: "\<not> streaming_active st3 \<longrightarrow> st4 = st3" using so by auto
          have "process_data py w data osc st =
                (r4, if r4 = None then st4\<lparr>sample_count := sample_count st4 + 1\<rparr> else st4)"
          proof (cases r4)
            case None4: None
            show ?thesis
              unfolding pd0 Inr
              by (simp only: sum.case lg None prod.case option.case so None4 if_True refl)
          next
            case (Some e)
            show ?thesis
              unfolding pd0 Inr
              by (simp only: sum.case lg None prod.case option.case so Some) simp
          qed
          with e3 e4 ns show ?thesis by blast
        qed
      qed
      with af o Inr None show ?thesis by (simp add: st2_def)
    qed
  qed
qed

lemma process_data_emit_abort:
  assumes "emit_raises w \<noteq> None"
  shows "fst (process_data py w data osc st) \<noteq> None"
    and "csv_writer (snd (process_data py w data osc st)) = csv_writer st"
    and "osc_sent (snd (process_data py w data osc st)) = osc_sent st"
proof -
  obtain r1 st1 where af: "apply_filters py data st = (r1, st1)"
    by (cases "apply_filters py data st")
  have o: "only_buffers st st1"
    using apply_filters_only_buffers[of st py data] af by simp
  from assms obtain e where e: "emit_raises w = Some e" by auto
  have "\<exists>e'. process_data py w data osc st = (Some e', st1)"
    by (cases r1) (simp_all add: process_data_def af e)
  then obtain e' where pd: "process_data py w data osc st = (Some e', st1)" by blast
  show "fst (process_data py w data osc st) \<noteq> None" by (simp add: pd)
  show "csv_writer (snd (process_data py w data osc st)) = csv_writer st"
    using only_buffers_fields(6)[OF o] by (simp add: pd)
  show "osc_sent (snd (process_data py w data osc st)) = osc_sent st"
    using only_buffers_fields(16)[OF o] by (simp add: pd)
qed

lemma process_data_log_abort:
  assumes la: "logging_active st" and wr: "csv_writer st \<noteq> None"
    and wo: "writerow_raises w \<noteq> None"
  shows "fst (process_data py w data osc st) \<noteq> None"
    and "osc_sent (snd (process_data py w data osc st)) = osc_sent st"
proof -
  obtain r1 st1 where af: "apply_filters py data st = (r1, st1)"
    by (cases "apply_filters py data st")
  have o: "only_buffers st st1"
    using apply_filters_only_buffers[of st py data] af by simp
  note f1 = only_buffers_fields[OF o]
  define st2 where "st2 = st1\<lparr>emitted := emitted st1 @ [data]\<rparr>"
  have s2: "logging_active st2" "csv_writer st2 \<noteq> None" "osc_sent st2 = osc_sent st"
    using f1 la wr by (simp_all add: st2_def)
  have "\<exists>e' st'. process_data py w data osc st = (Some e', st') \<and> osc_sent st' = osc_sent st"
  proof (cases r1)
    case (Inl e)
    then show ?thesis using f1(16) by (simp add: process_data_def af)
  next
    case (Inr fd)
    show ?thesis
    proof (cases "emit_raises w")
      case (Some e)
      then show ?thesis using f1(16) by (simp add: process_data_def af Inr)
    next
      case None
      define sel where "sel = (if filtered_radio st2 then Inr (Filtered fd)
                               else map_sum id RawChannels (py_getitem data ''channels''))"
      note pd0 = process_data_after_emit[OF af[unfolded Inr] None st2_def sel_def, of osc]
      show ?thesis
      proof (cases sel)
        case (Inl e)
        then show ?thesis using s2(3) by (simp add: pd0)
      next
        case (Inr outp)
        obtain r3 st3 where lg: "log_to_csv w data outp st2 = (r3, st3)"
          by (cases "log_to_csv w data outp st2")
        from log_to_csv_fails[OF s2(2) wo, of data outp] lg
        obtain e3 where "r3 = Some e3" and "st3 = st2" by auto
        with lg have "process_data py w data osc st = (Some e3, st2)"
          unfolding pd0 Inr using s2(1,2) by simp
        with s2(3) show ?thesis by simp
      qed
    qed
  qed
  then obtain e' st' where pd: "process_data py w data osc st = (Some e', st')"
    and os: "osc_sent st' = osc_sent st" by blast
  show "fst (process_data py w data osc st) \<noteq> None" by (simp add: pd)
  show "osc_sent (snd (process_data py w data osc st)) = osc_sent st" using os by (simp add: pd)
qed

lemma process_data_counts:
  shows "fst (process_data py w data osc st) \<noteq> None \<longrightarrow>
           sample_count (snd (process_data py w data osc st)) = sample_count st"
    and "fst (process_data py w data osc st) = None \<longrightarrow>
           sample_count (snd (process_data py w data osc st)) = sample_count st + 1"
    and "error_count (snd (process_data py w data osc st)) = error_count st"
    and "filter_buffers (snd (process_data py w data osc st)) =
           filter_buffers (snd (apply_filters py data st))"
    and "\<not> streaming_active st \<longrightarrow>
           threshold_states (snd (process_data py w data osc st)) = threshold_states st"
proof -
  from process_data_outcome[of py data st w osc] obtain r1 st1 where
    af: "apply_filters py data st = (r1, st1)" and o: "only_buffers st st1"
    and rest: "case r1 of
        Inl e \<Rightarrow> process_data py w data osc st = (Some e, st1)
      | Inr fd \<Rightarrow>
          (case emit_raises w of
             Some e \<Rightarrow> process_data py w data osc st = (Some e, st1)
           | None \<Rightarrow>
               (\<exists>st3 st4 r.
                  erase_log st3 = erase_log (st1\<lparr>emitted := emitted st1 @ [data]\<rparr>) \<and>
                  erase_osc st4 = erase_osc st3 \<and>
                  (\<not> streaming_active st3 \<longrightarrow> st4 = st3) \<and>
                  process_data py w data osc st =
                    (r, if r = None then st4\<lparr>sample_count := sample_count st4 + 1\<rparr> else st4)))"
    by blast
  note f1 = only_buffers_fields[OF o]
  have "\<exists>r st'. process_data py w data osc st =
            (r, if r = None then st'\<lparr>sample_count := sample_count st' + 1\<rparr> else st') \<and>
          sample_count st' = sample_count st \<and> error_count st' = error_count st \<and>
          filter_buffers st' = filter_buffers st1 \<and>
          (\<not> streaming_active st \<longrightarrow> threshold_states st' = threshold_states st)"
  proof (cases r1)
    case (Inl e)
    with rest have "process_data py w data osc st = (Some e, st1)" by simp
    then show ?thesis using f1 by (intro exI[of _ "Some e"] exI[of _ st1]) simp
  next
    case (Inr fd)
    show ?thesis
    proof (cases "emit_raises w")
      case (Some e)
      with rest Inr have "process_data py w data osc st = (Some e, st1)" by simp
      then show ?thesis using f1 by (intro exI[of _ "Some e"] exI[of _ st1]) simp
    next
      case None
      with rest Inr obtain st3 st4 r where
        e3: "erase_log st3 = erase_log (st1\<lparr>emitted := emitted st1 @ [data]\<rparr>)"
        and e4: "erase_osc st4 = erase_osc st3"
        and ns: "\<not> streaming_active st3 \<longrightarrow> st4 = st3"
        and pd: "process_data py w data osc st =
                    (r, if r = None then st4\<lparr>sample_count := sample_count st4 + 1\<rparr> else st4)"
        by auto
      note f3 = erase_log_fields[OF e3]
      note f4 = erase_osc_fields[OF e4]
      have "sample_count st4 = sample_count st" using f4(5) f3(5) f1(8) by simp
      moreover have "error_count st4 = error_count st" using f4(13) f3(13) f1(9) by simp
      moreover have "filter_buffers st4 = filter_buffers st1" using f4(6) f3(6) by simp
      moreover have "\<not> streaming_active st \<longrightarrow> threshold_states st4 = threshold_states st"
        using ns f3(2,4) f1(5,10) by auto
      ultimately show ?thesis using pd by blast
    qed
  qed
  then obtain r st' where
    pd: "process_data py w data osc st =
            (r, if r = None then st'\<lparr>sample_count := sample_count st' + 1\<rparr> else st')"
    and sc: "sample_count st' = sample_count st" and ec: "error_count st' = error_count st"
    and fb: "filter_buffers st' = filter_buffers st1"
    and ts: "\<not> streaming_active st \<longrightarrow> threshold_states st' = threshold_states st"
    by blast
  show "fst (process_data py w data osc st) \<noteq> None \<longrightarrow>
           sample_count (snd (process_data py w data osc st)) = sample_count st"
    using sc by (simp add: pd)
  show "fst (process_data py w data osc st) = None \<longrightarrow>
           sample_count (snd (process_data py w data osc st)) = sample_count st + 1"
    using sc by (simp add: pd)
  show "error_count (snd (process_data py w data osc st)) = error_count st"
    using ec by (simp add: pd)
  show "filter_buffers (snd (process_data py w data osc st)) =
           filter_buffers (snd (apply_filters py data st))"
    using fb by (simp add: pd af)
  show "\<not> streaming_active st \<longrightarrow>
           threshold_states (snd (process_data py w data osc st)) = threshold_states st"
    using ts by (simp add: pd)
qed

lemma process_data_classifies:
  assumes i: "i < 4" and en: "thresh_enabled st i"
    and ch: "returned_entry (apply_filters py data st) i = Some ch"
    and on: "streaming_active st"
    and fin: "fst (process_data py w data accept_all st) = None"
  shows "threshold_states (snd (process_data py w data accept_all st)) i =
           Some (classify (threshold_input st i ch) (thresh_high st i) (thresh_low st i))"
proof -
  obtain r1 st1 where af: "apply_filters py data st = (r1, st1)"
    by (cases "apply_filters py data st")
  from ch af obtain fd where r1: "r1 = Inr fd" and fdi: "fd (str i) = Some ch"
    by (cases r1) (simp_all add: returned_entry_def)
  have o: "only_buffers st st1"
    using apply_filters_only_buffers[of st py data] af by simp
  note f1 = only_buffers_fields[OF o]
  have em: "emit_raises w = None"
  proof (cases "emit_raises w")
    case None
    then show ?thesis .
  next
    case (Some e)
    then have "emit_raises w \<noteq> None" by simp
    from process_data_emit_abort(1)[OF this, of py data accept_all st] fin show ?thesis by simp
  qed
  define st2 where "st2 = st1\<lparr>emitted := emitted st1 @ [data]\<rparr>"
  define sel where "sel = (if filtered_radio st2 then Inr (Filtered fd)
                           else map_sum id RawChannels (py_getitem data ''channels''))"
  note pd0 = process_data_after_emit[OF af[unfolded r1] em st2_def sel_def, of accept_all]
  from fin pd0 obtain outp where sel: "sel = Inr outp"
    by (cases sel) simp_all
  obtain r3 st3 where lg:
    "(if logging_active st2 \<and> csv_writer st2 \<noteq> None
      then log_to_csv w data outp st2 else (None, st2)) = (r3, st3)"
    by (cases "if logging_active st2 \<and> csv_writer st2 \<noteq> None
               then log_to_csv w data outp st2 else (None, st2)")
  have e3: "erase_log st3 = erase_log st2"
    using lg log_to_csv_log[of w data outp st2]
    by (cases "logging_active st2 \<and> csv_writer st2 \<noteq> None") auto
  note f3 = erase_log_fields[OF e3]
  have pd1: "process_data py w data accept_all st =
      (case (r3, st3) of
         (Some e, st3) \<Rightarrow> (Some e, st3)
       | (None, st3) \<Rightarrow>
           (case (if streaming_active st3
                  then send_osc outp fd accept_all st3 else (None, st3)) of
              (Some e, st4) \<Rightarrow> (Some e, st4)
            | (None, st4) \<Rightarrow> (None, st4\<lparr>sample_count := sample_count st4 + 1\<rparr>)))"
    unfolding pd0 sel by (simp only: sum.case lg)
  from fin pd1 have r3: "r3 = None" by (cases r3) simp_all
  have str3: "streaming_active st3" using f3(2) f1(5) on by (simp add: st2_def)
  obtain r4 st4 where so: "send_osc outp fd accept_all st3 = (r4, st4)"
    by (cases "send_osc outp fd accept_all st3")
  have pd2: "process_data py w data accept_all st =
      (case r4 of Some e \<Rightarrow> (Some e, st4)
       | None \<Rightarrow> (None, st4\<lparr>sample_count := sample_count st4 + 1\<rparr>))"
    unfolding pd1 r3 using str3 so by (simp split: option.splits)
  from fin pd2 have r4: "r4 = None" by (cases r4) simp_all
  obtain r5 st5 where sl: "for_range [0, 1, 2, 3] (send_channel outp accept_all) st3 = (r5, st5)"
    by (cases "for_range [0, 1, 2, 3] (send_channel outp accept_all) st3")
  have e5: "erase_sent st5 = erase_sent st3"
    using send_loop_sent[of "[0, 1, 2, 3]" outp accept_all st3] sl by simp
  note f5 = erase_osc_fields[OF erase_sent_osc[OF e5]]
  from so r4 sl have r5: "r5 = None" and ct: "check_thresholds fd accept_all st5 = (None, st4)"
    by (cases r5; simp add: send_osc_def)+
  have same: "thresh_enabled st5 = thresh_enabled st" "thresh_high st5 = thresh_high st"
    "thresh_low st5 = thresh_low st" "filter_enabled st5 = filter_enabled st"
    using f5(8,9,10,11) f3(8,9,10,11) f1(1,11,12,13) by (simp_all add: st2_def)
  have en5: "thresh_enabled st5 i" using en same by simp
  from check_thresholds_step[where i=i and data=fd and ch=ch and st=st5] i fdi en5 ct
  have "threshold_states st4 i =
          Some (classify (threshold_input st5 i ch) (thresh_high st5 i) (thresh_low st5 i))"
    by simp
  then show ?thesis
    using same by (simp add: pd2 r4 threshold_input_def)
qed

text \<open>
  C2, as the code has it. Every sample that reaches the dispatcher goes through the filter
  engine: the histories after the cycle are those \<^verbatim>\<open>apply_filters\<close> leaves. The threshold
  engine is called inside the streaming block only: with streaming off the stored threshold
  states are unchanged, and with streaming on a cycle that completes has classified the value
  the filter engine returned for every enabled channel.
\<close>

theorem dispatch_filters_then_thresholds:
  assumes "i < 4" and "thresh_enabled st i"
    and "returned_entry (apply_filters py data st) i = Some ch"
  shows "filter_buffers (snd (process_data py w data osc st)) =
           filter_buffers (snd (apply_filters py data st)) \<and>
         (\<not> streaming_active st \<longrightarrow>
            threshold_states (snd (process_data py w data osc st)) = threshold_states st) \<and>
         (streaming_active st \<and> fst (process_data py w data accept_all st) = None \<longrightarrow>
            threshold_states (snd (process_data py w data accept_all st)) i =
              Some (classify (threshold_input st i ch) (thresh_high st i) (thresh_low st i)))"
  using process_data_counts(4,5)[where py=py and w=w and data=data and osc=osc and st=st]
    process_data_classifies[OF assms(1,2,3), where w=w]
  by simp

lemmas dispatch_eval =
  process_data_def apply_filters_def apply_filters_body_def read_channel_def log_to_csv_def
  csv_cells_def send_osc_def send_channel_def send_message_def check_thresholds_def
  check_thresholds_body_def threshold_input_def classify_def deque_append_def py_last_def
  accept_all_def reject_all_def quiet_io_def failing_writer_def failing_emit_def
  app_init_def thresh_on_def streaming_off_def logging_on_def frame_def str_channel Let_def

theorem dispatch_filters_then_thresholds_witness:
  "(0::nat) < 4 \<and> thresh_enabled streaming_off 0 \<and> thresh_enabled thresh_on 0 \<and>
   returned_entry (apply_filters sample_conv (frame (PInt 7) (PFloat (Fin 2))) streaming_off) 0 =
     Some \<lparr>raw = 7, voltage = Fin 2, filtered_voltage = Fin 2\<rparr> \<and>
   returned_entry (apply_filters sample_conv (frame (PInt 7) (PFloat (Fin 2))) thresh_on) 0 =
     Some \<lparr>raw = 7, voltage = Fin 2, filtered_voltage = Fin 2\<rparr> \<and>
   \<not> streaming_active streaming_off \<and> streaming_active thresh_on \<and>
   fst (process_data sample_conv quiet_io (frame (PInt 7) (PFloat (Fin 2))) accept_all thresh_on) = None \<and>
   filter_buffers (snd (process_data sample_conv quiet_io (frame (PInt 7) (PFloat (Fin 2))) accept_all
       streaming_off)) 0 = [Fin 2] \<and>
   threshold_states (snd (process_data sample_conv quiet_io (frame (PInt 7) (PFloat (Fin 2))) accept_all
       streaming_off)) 0 = None \<and>
   threshold_states (snd (process_data sample_conv quiet_io (frame (PInt 7) (PFloat (Fin 2))) accept_all
       thresh_on)) 0 = Some High"
proof -
  have e1: "returned_entry (apply_filters sample_conv (frame (PInt 7) (PFloat (Fin 2))) streaming_off) 0 =
     Some \<lparr>raw = 7, voltage = Fin 2, filtered_voltage = Fin 2\<rparr>"
    and e2: "returned_entry (apply_filters sample_conv (frame (PInt 7) (PFloat (Fin 2))) thresh_on) 0 =
     Some \<lparr>raw = 7, voltage = Fin 2, filtered_voltage = Fin 2\<rparr>"
    and b: "filter_buffers (snd (apply_filters sample_conv (frame (PInt 7) (PFloat (Fin 2)))
       streaming_off)) 0 = [Fin 2]"
    by (simp_all add: returned_entry_def dispatch_eval)
  have c: "fst (process_data sample_conv quiet_io (frame (PInt 7) (PFloat (Fin 2))) accept_all thresh_on)
      = None"
    by (simp add: dispatch_eval)
  have s: "(0::nat) < 4" "thresh_enabled streaming_off 0" "thresh_enabled thresh_on 0"
    "\<not> streaming_active streaming_off" "streaming_active thresh_on"
    "threshold_states streaming_off 0 = None" "thresh_high thresh_on 0 = 1"
    by (simp_all add: dispatch_eval)
  show ?thesis
    using dispatch_filters_then_thresholds[OF s(1) s(2) e1, of quiet_io accept_all]
      dispatch_filters_then_thresholds[OF s(1) s(3) e2, of quiet_io accept_all]
      e1 e2 b c s
    by (simp add: threshold_input_def classify_def)
qed

text \<open>
  The claim as written fails: with streaming switched off a sample is processed (it is counted)
  and its channel 0 reads 2.0 V above the high setpoint, but no classification is stored; the
  same sample with streaming on stores High.
\<close>

theorem thresholds_need_streaming_counterexample:
  "fst (process_data sample_conv quiet_io (frame (PInt 7) (PFloat (Fin 2))) accept_all streaming_off) = None \<and>
   sample_count (snd (process_data sample_conv quiet_io (frame (PInt 7) (PFloat (Fin 2))) accept_all
       streaming_off)) = 1 \<and>
   thresh_enabled streaming_off 0 \<and>
   threshold_states (snd (process_data sample_conv quiet_io (frame (PInt 7) (PFloat (Fin 2))) accept_all
       streaming_off)) 0 = None \<and>
   threshold_states (snd (process_data sample_conv quiet_io (frame (PInt 7) (PFloat (Fin 2))) accept_all
       thresh_on)) 0 = Some High"
  by (simp add: dispatch_eval)

text \<open>
  C4, as the code has it. No sink call of \<^verbatim>\<open>process_data\<close> is inside a \<^verbatim>\<open>try\<close>: the
  calls are made in the order signal, CSV row, OSC messages, and the first one that raises ends
  the cycle. When the signal raises, no row is written and no message is sent; when the writer
  raises, no message is sent; a cycle that raises does not count its sample. The exception is
  caught by the acquisition loop, which counts it in \<^verbatim>\<open>error_count\<close>, updates
  \<^verbatim>\<open>next_sample_time\<close> and goes on with the next pass.
\<close>

theorem sink_failure_ends_cycle_not_loop:
  "(emit_raises w \<noteq> None \<longrightarrow>
      fst (process_data py w data osc st) \<noteq> None \<and>
      csv_writer (snd (process_data py w data osc st)) = csv_writer st \<and>
      osc_sent (snd (process_data py w data osc st)) = osc_sent st) \<and>
   (logging_active st \<and> csv_writer st \<noteq> None \<and> writerow_raises w \<noteq> None \<longrightarrow>
      fst (process_data py w data osc st) \<noteq> None \<and>
      osc_sent (snd (process_data py w data osc st)) = osc_sent st) \<and>
   (fst (process_data py w data osc st) \<noteq> None \<longrightarrow>
      sample_count (snd (process_data py w data osc st)) = sample_count st) \<and>
   (tick_running t \<and> \<not> tick_time t < next_sample_time \<and> tick_fetch t = Inr data \<and>
    fst (process_data py (tick_io t) data (tick_osc t) st) \<noteq> None \<longrightarrow>
      try_fetch py t st =
        (snd (process_data py (tick_io t) data (tick_osc t) st))\<lparr>error_count := error_count st + 1\<rparr> \<and>
      data_acquisition_loop py sample_interval (t # ts) (next_sample_time, st) =
        (Fetch # fst (data_acquisition_loop py sample_interval ts
                        (if next_sample_time + sample_interval < tick_time t
                         then tick_time t + sample_interval
                         else next_sample_time + sample_interval, try_fetch py t st)),
         snd (data_acquisition_loop py sample_interval ts
                (if next_sample_time + sample_interval < tick_time t
                 then tick_time t + sample_interval
                 else next_sample_time + sample_interval, try_fetch py t st))))"
proof -
  have p1: "emit_raises w \<noteq> None \<longrightarrow>
      fst (process_data py w data osc st) \<noteq> None \<and>
      csv_writer (snd (process_data py w data osc st)) = csv_writer st \<and>
      osc_sent (snd (process_data py w data osc st)) = osc_sent st"
    using process_data_emit_abort[of w py data osc st] by blast
  have p2: "logging_active st \<and> csv_writer st \<noteq> None \<and> writerow_raises w \<noteq> None \<longrightarrow>
      fst (process_data py w data osc st) \<noteq> None \<and>
      osc_sent (snd (process_data py w data osc st)) = osc_sent st"
    using process_data_log_abort[of st w py data osc] by blast
  have p3: "fst (process_data py w data osc st) \<noteq> None \<longrightarrow>
      sample_count (snd (process_data py w data osc st)) = sample_count st"
    by (rule process_data_counts(1))
  have p4: "tick_running t \<and> \<not> tick_time t < next_sample_time \<and> tick_fetch t = Inr data \<and>
    fst (process_data py (tick_io t) data (tick_osc t) st) \<noteq> None \<longrightarrow>
      try_fetch py t st =
        (snd (process_data py (tick_io t) data (tick_osc t) st))\<lparr>error_count := error_count st + 1\<rparr> \<and>
      data_acquisition_loop py sample_interval (t # ts) (next_sample_time, st) =
        (Fetch # fst (data_acquisition_loop py sample_interval ts
                        (if next_sample_time + sample_interval < tick_time t
                         then tick_time t + sample_interval
                         else next_sample_time + sample_interval, try_fetch py t st)),
         snd (data_acquisition_loop py sample_interval ts
                (if next_sample_time + sample_interval < tick_time t
                 then tick_time t + sample_interval
                 else next_sample_time + sample_interval, try_fetch py t st)))"
  proof (intro impI, elim conjE)
    assume run: "tick_running t" and due: "\<not> tick_time t < next_sample_time"
      and f: "tick_fetch t = Inr data"
      and ex: "fst (process_data py (tick_io t) data (tick_osc t) st) \<noteq> None"
    obtain r st1 where pd: "process_data py (tick_io t) data (tick_osc t) st = (r, st1)"
      by (cases "process_data py (tick_io t) data (tick_osc t) st")
    from ex pd obtain e where r: "r = Some e" by auto
    have ec: "error_count st1 = error_count st"
      using process_data_counts(3)[where py=py and w="tick_io t" and data=data
          and osc="tick_osc t" and st=st] pd by simp
    have tf: "try_fetch py t st =
        (snd (process_data py (tick_io t) data (tick_osc t) st))\<lparr>error_count := error_count st + 1\<rparr>"
      by (simp add: try_fetch_def f pd r ec)
    have lp: "loop_pass py sample_interval t (next_sample_time, st) =
        (Fetch, (if next_sample_time + sample_interval < tick_time t
                 then tick_time t + sample_interval
                 else next_sample_time + sample_interval, try_fetch py t st))"
      using due by (simp add: loop_pass_def Let_def)
    show "try_fetch py t st =
        (snd (process_data py (tick_io t) data (tick_osc t) st))\<lparr>error_count := error_count st + 1\<rparr> \<and>
      data_acquisition_loop py sample_interval (t # ts) (next_sample_time, st) =
        (Fetch # fst (data_acquisition_loop py sample_interval ts
                        (if next_sample_time + sample_interval < tick_time t
                         then tick_time t + sample_interval
                         else next_sample_time + sample_interval, try_fetch py t st)),
         snd (data_acquisition_loop py sample_interval ts
                (if next_sample_time + sample_interval < tick_time t
                 then tick_time t + sample_interval
                 else next_sample_time + sample_interval, try_fetch py t st)))"
      using tf run by (simp add: lp split: prod.splits)
  qed
  from p1 p2 p3 p4 show ?thesis by blast
qed

theorem sink_failure_ends_cycle_not_loop_witness:
  "emit_raises failing_emit \<noteq> None \<and>
   logging_active logging_on \<and> csv_writer logging_on \<noteq> None \<and>
   writerow_raises failing_writer \<noteq> None \<and>
   tick_running (frame_tick 5 failing_writer accept_all (frame (PInt 7) (PFloat (Fin (3 / 2))))) \<and>
   \<not> tick_time (frame_tick 5 failing_writer accept_all (frame (PInt 7) (PFloat (Fin (3 / 2))))) < 0 \<and>
   fst (process_data sample_conv failing_emit (frame (PInt 7) (PFloat (Fin (3 / 2)))) accept_all logging_on)
     \<noteq> None \<and>
   csv_writer (snd (process_data sample_conv failing_emit (frame (PInt 7) (PFloat (Fin (3 / 2))))
       accept_all logging_on)) = Some [] \<and>
   osc_sent (snd (process_data sample_conv failing_emit (frame (PInt 7) (PFloat (Fin (3 / 2))))
       accept_all logging_on)) = [] \<and>
   fst (process_data sample_conv failing_writer (frame (PInt 7) (PFloat (Fin (3 / 2)))) accept_all
       logging_on) \<noteq> None \<and>
   osc_sent (snd (process_data sample_conv failing_writer (frame (PInt 7) (PFloat (Fin (3 / 2))))
       accept_all logging_on)) = [] \<and>
   sample_count (snd (process_data sample_conv failing_writer (frame (PInt 7) (PFloat (Fin (3 / 2))))
       accept_all logging_on)) = 0 \<and>
   error_count (try_fetch sample_conv
       (frame_tick 5 failing_writer accept_all (frame (PInt 7) (PFloat (Fin (3 / 2))))) logging_on) = 1 \<and>
   fst (data_acquisition_loop sample_conv 1
       [frame_tick 5 failing_writer accept_all (frame (PInt 7) (PFloat (Fin (3 / 2)))),
        frame_tick 6 quiet_io accept_all (frame (PInt 8) (PFloat (Fin 2)))] (0, logging_on)) =
     [Fetch, Fetch]"
proof -
  let ?fr = "frame (PInt 7) (PFloat (Fin (3 / 2)))"
  let ?t = "frame_tick 5 failing_writer accept_all ?fr"
  have h: "emit_raises failing_emit \<noteq> None" "logging_active logging_on"
    "csv_writer logging_on \<noteq> None" "writerow_raises failing_writer \<noteq> None"
    "tick_running ?t" "\<not> tick_time ?t < 0" "tick_fetch ?t = Inr ?fr"
    "tick_io ?t = failing_writer" "tick_osc ?t = accept_all"
    "csv_writer logging_on = Some []" "osc_sent logging_on = []" "sample_count logging_on = 0"
    "error_count logging_on = 0"
    by (simp_all add: failing_emit_def failing_writer_def quiet_io_def logging_on_def app_init_def
        frame_tick_def)
  let ?ts = "[frame_tick 6 quiet_io accept_all (frame (PInt 8) (PFloat (Fin 2)))]"
  have tt: "tick_time ?t = 5" by (simp add: frame_tick_def)
  have rest: "fst (data_acquisition_loop sample_conv 1 ?ts
        (6, try_fetch sample_conv ?t logging_on)) = [Fetch]"
    by (simp add: loop_pass_def frame_tick_def Let_def split: prod.splits)
  note A = sink_failure_ends_cycle_not_loop[of failing_emit sample_conv ?fr accept_all logging_on
      ?t 0 1 ?ts]
  note B = sink_failure_ends_cycle_not_loop[of failing_writer sample_conv ?fr accept_all logging_on
      ?t 0 1 ?ts]
  from A h(1) have a:
    "fst (process_data sample_conv failing_emit ?fr accept_all logging_on) \<noteq> None"
    "csv_writer (snd (process_data sample_conv failing_emit ?fr accept_all logging_on)) =
       csv_writer logging_on"
    "osc_sent (snd (process_data sample_conv failing_emit ?fr accept_all logging_on)) =
       osc_sent logging_on"
    by blast+
  from B h(2,3,4) have b:
    "fst (process_data sample_conv failing_writer ?fr accept_all logging_on) \<noteq> None"
    "osc_sent (snd (process_data sample_conv failing_writer ?fr accept_all logging_on)) =
       osc_sent logging_on"
    by blast+
  from B b(1) have c:
    "sample_count (snd (process_data sample_conv failing_writer ?fr accept_all logging_on)) =
       sample_count logging_on"
    by blast
  have b': "fst (process_data sample_conv (tick_io ?t) ?fr (tick_osc ?t) logging_on) \<noteq> None"
    using b(1) by (simp add: h(8,9))
  from B h(5,6,7) b' have d:
    "try_fetch sample_conv ?t logging_on =
       (snd (process_data sample_conv (tick_io ?t) ?fr (tick_osc ?t) logging_on))
         \<lparr>error_count := error_count logging_on + 1\<rparr>"
    "data_acquisition_loop sample_conv 1 (?t # ?ts) (0, logging_on) =
        (Fetch # fst (data_acquisition_loop sample_conv 1 ?ts
                        (if 0 + 1 < tick_time ?t then tick_time ?t + 1 else 0 + 1,
                         try_fetch sample_conv ?t logging_on)),
         snd (data_acquisition_loop sample_conv 1 ?ts
                (if 0 + 1 < tick_time ?t then tick_time ?t + 1 else 0 + 1,
                 try_fetch sample_conv ?t logging_on)))"
    by blast+
  have e: "error_count (try_fetch sample_conv ?t logging_on) = 1"
    by (subst d(1)) (simp add: h(13))
  have l: "fst (data_acquisition_loop sample_conv 1 (?t # ?ts) (0, logging_on)) = [Fetch, Fetch]"
    by (subst d(2)) (simp del: data_acquisition_loop.simps add: tt rest)
  show ?thesis
    using h(1-6) a b c e l by (simp only: h(10,11,12)) simp
qed

text \<open>
  The claim as written fails: with logging and streaming active and an OSC client that accepts
  every message, a writer that raises ends the cycle before any OSC message of the sample is
  sent, while the same sample with a working writer sends its two messages.
\<close>

theorem writer_failure_stops_telemetry_counterexample:
  "streaming_active logging_on \<and>
   fst (process_data sample_conv failing_writer (frame (PInt 7) (PFloat (Fin (3 / 2)))) accept_all
       logging_on) = Some OSError \<and>
   osc_sent (snd (process_data sample_conv failing_writer (frame (PInt 7) (PFloat (Fin (3 / 2))))
       accept_all logging_on)) = [] \<and>
   osc_sent (snd (process_data sample_conv quiet_io (frame (PInt 7) (PFloat (Fin (3 / 2))))
       accept_all logging_on)) = [(AdcRaw 0, PInt 7), (AdcVoltage 0, PFloat (Fin (3 / 2)))]"
  by (simp add: dispatch_eval)

lemma try_fetch_counts:
  assumes "tick_fetch t = Inr data"
  shows "sample_count (try_fetch py t st) + error_count (try_fetch py t st) =
           sample_count st + error_count st + 1"
    and "sample_count (try_fetch py t st) \<le> sample_count st + 1"
proof -
  obtain r st1 where pd: "process_data py (tick_io t) data (tick_osc t) st = (r, st1)"
    by (cases "process_data py (tick_io t) data (tick_osc t) st")
  note c = process_data_counts(1,2,3)[where py=py and w="tick_io t" and data=data
      and osc="tick_osc t" and st=st]
  show "sample_count (try_fetch py t st) + error_count (try_fetch py t st) =
           sample_count st + error_count st + 1"
    using c pd by (cases r) (simp_all add: try_fetch_def assms)
  show "sample_count (try_fetch py t st) \<le> sample_count st + 1"
    using c pd by (cases r) (simp_all add: try_fetch_def assms)
qed

text \<open>
  C5, as the code has it. The CSV row of a sample is written before any OSC message of that
  sample is sent, so whatever the OSC client does (it is arbitrary in every pass below), each
  valid sample that reaches the dispatcher while logging is active, the signal and the file
  working, adds exactly one row. The counter \<^verbatim>\<open>sample_count\<close> is incremented at the end of a
  cycle only, so a cycle whose OSC send raises writes its row without being counted as a sample:
  it is counted in \<^verbatim>\<open>error_count\<close> instead. After any number of passes the rows written, and
  the row counter, have grown by the number of samples dispatched, which is the growth of
  \<^verbatim>\<open>sample_count\<close> plus that of \<^verbatim>\<open>error_count\<close>.
\<close>

theorem log_row_per_dispatched_sample:
  assumes "logging_active st" and "csv_writer st \<noteq> None" and "windows_in_range st"
    and "\<forall>t \<in> set ticks. log_sink_works py t"
  shows "rows_written (fold (try_fetch py) ticks st) = rows_written st + length ticks \<and>
         csv_row_count (fold (try_fetch py) ticks st) = csv_row_count st + int (length ticks) \<and>
         sample_count (fold (try_fetch py) ticks st) + error_count (fold (try_fetch py) ticks st) =
           sample_count st + error_count st + int (length ticks) \<and>
         sample_count (fold (try_fetch py) ticks st) \<le> sample_count st + int (length ticks)"
  using assms
proof (induction ticks arbitrary: st)
  case Nil
  show ?case by simp
next
  case (Cons t ticks)
  from Cons.prems have t: "log_sink_works py t" and rest: "\<forall>u \<in> set ticks. log_sink_works py u"
    by simp_all
  from t obtain data where f: "tick_fetch t = Inr data"
    by (cases "tick_fetch t") (simp_all add: log_sink_works_def)
  note s = try_fetch_logs[OF Cons.prems(1,2,3) t]
  note c = try_fetch_counts[OF f, of py st]
  from Cons.IH[OF s(3,4,5) rest] s(1,2) c show ?case by simp
qed

theorem log_row_per_dispatched_sample_witness:
  "logging_active logging_on \<and> csv_writer logging_on \<noteq> None \<and> windows_in_range logging_on \<and>
   log_sink_works sample_conv
     (frame_tick 0 quiet_io reject_all (frame (PInt 7) (PFloat (Fin (3 / 2))))) \<and>
   log_sink_works sample_conv
     (frame_tick 1 quiet_io accept_all (frame (PInt 8) (PFloat (Fin 2)))) \<and>
   rows_written logging_on = 0 \<and>
   rows_written (fold (try_fetch sample_conv)
     [frame_tick 0 quiet_io reject_all (frame (PInt 7) (PFloat (Fin (3 / 2)))),
      frame_tick 1 quiet_io accept_all (frame (PInt 8) (PFloat (Fin 2)))] logging_on) = 2 \<and>
   csv_row_count (fold (try_fetch sample_conv)
     [frame_tick 0 quiet_io reject_all (frame (PInt 7) (PFloat (Fin (3 / 2)))),
      frame_tick 1 quiet_io accept_all (frame (PInt 8) (PFloat (Fin 2)))] logging_on) = 2 \<and>
   sample_count (fold (try_fetch sample_conv)
     [frame_tick 0 quiet_io reject_all (frame (PInt 7) (PFloat (Fin (3 / 2)))),
      frame_tick 1 quiet_io accept_all (frame (PInt 8) (PFloat (Fin 2)))] logging_on) +
   error_count (fold (try_fetch sample_conv)
     [frame_tick 0 quiet_io reject_all (frame (PInt 7) (PFloat (Fin (3 / 2)))),
      frame_tick 1 quiet_io accept_all (frame (PInt 8) (PFloat (Fin 2)))] logging_on) = 2"
proof -
  have h1: "logging_active logging_on" and h2: "csv_writer logging_on \<noteq> None"
    and h3: "windows_in_range logging_on"
    and t1: "log_sink_works sample_conv
      (frame_tick 0 quiet_io reject_all (frame (PInt 7) (PFloat (Fin (3 / 2)))))"
    and t2: "log_sink_works sample_conv
      (frame_tick 1 quiet_io accept_all (frame (PInt 8) (PFloat (Fin 2))))"
    by (simp_all add: logging_on_def app_init_def windows_in_range_def log_sink_works_def
        frame_tick_def quiet_io_def valid_sample_def valid_channels_def valid_entry_def
        no_overflow_def read_channel_def frame_def str_channel)
  have h4: "\<forall>t \<in> set [frame_tick 0 quiet_io reject_all (frame (PInt 7) (PFloat (Fin (3 / 2)))),
                frame_tick 1 quiet_io accept_all (frame (PInt 8) (PFloat (Fin 2)))].
              log_sink_works sample_conv t"
    using t1 t2 by simp
  have zero: "rows_written logging_on = 0" "csv_row_count logging_on = 0"
    "sample_count logging_on = 0" "error_count logging_on = 0"
    by (simp_all add: rows_written_def logging_on_def app_init_def)
  show ?thesis
    using log_row_per_dispatched_sample[OF h1 h2 h3 h4] h1 h2 h3 t1 t2 zero by simp
qed

text \<open>
  The claim as written fails for the counter the program keeps: one sample dispatched with logging
  active and an OSC client that raises leaves one row in the file and \<^verbatim>\<open>csv_row_count = 1\<close>,
  while \<^verbatim>\<open>sample_count\<close> is still 0.
\<close>

theorem rows_exceed_sample_count_counterexample:
  "logging_active logging_on \<and> csv_row_count logging_on = 0 \<and> sample_count logging_on = 0 \<and>
   rows_written (try_fetch sample_conv
     (frame_tick 0 quiet_io reject_all (frame (PInt 7) (PFloat (Fin (3 / 2))))) logging_on) = 1 \<and>
   csv_row_count (try_fetch sample_conv
     (frame_tick 0 quiet_io reject_all (frame (PInt 7) (PFloat (Fin (3 / 2))))) logging_on) = 1 \<and>
   sample_count (try_fetch sample_conv
     (frame_tick 0 quiet_io reject_all (frame (PInt 7) (PFloat (Fin (3 / 2))))) logging_on) = 0 \<and>
   error_count (try_fetch sample_conv
     (frame_tick 0 quiet_io reject_all (frame (PInt 7) (PFloat (Fin (3 / 2))))) logging_on) = 1"
  by (simp add: try_fetch_def frame_tick_def rows_written_def dispatch_eval)

end
